theory Spec2Isabelle
  imports Complex_Main "HOL-Library.Sublist" "HOL-Library.AList"
begin

section \<open>JavaScript values\<close>

text \<open>
  The dispatcher takes \<^verbatim>\<open>request: any\<close> and hands \<^verbatim>\<open>request.parameters\<close> on to the
  executors unchecked, so requests, parameters, written content and decoded bodies are
  values of one dynamic type. Strings are lists of 8-bit characters, the code units
  U+0000 to U+00FF; a \<^verbatim>\<open>Blob\<close> is the list of its bytes. JSON cannot carry \<^verbatim>\<open>NaN\<close>, functions or cycles, and the type has none.
\<close>

datatype jsval =
    JUndefined
  | JNull
  | JBool bool
  | JNum rat
  | JStr string
  | JArr "jsval list"
  | JObj "(string \<times> jsval) list"
  | JBlob string

text \<open>The outcome of an awaited promise: the value, or the message of what was thrown.\<close>

datatype 'a outcome = Resolve 'a | Reject string

fun typeof :: "jsval \<Rightarrow> string" where
  "typeof JUndefined = ''undefined''"
| "typeof JNull = ''object''"
| "typeof (JBool b) = ''boolean''"
| "typeof (JNum x) = ''number''"
| "typeof (JStr s) = ''string''"
| "typeof (JArr xs) = ''object''"
| "typeof (JObj kvs) = ''object''"
| "typeof (JBlob bs) = ''object''"

fun truthy :: "jsval \<Rightarrow> bool" where
  "truthy JUndefined = False"
| "truthy JNull = False"
| "truthy (JBool b) = b"
| "truthy (JNum x) = (x \<noteq> 0)"
| "truthy (JStr s) = (s \<noteq> [])"
| "truthy (JArr xs) = True"
| "truthy (JObj kvs) = True"
| "truthy (JBlob bs) = True"

text \<open>
  Reading a property \<^verbatim>\<open>v.k\<close>. On \<^verbatim>\<open>undefined\<close> and \<^verbatim>\<open>null\<close> it throws a TypeError (the
  message is V8's); the names read in this program (\<^verbatim>\<open>action\<close>, \<^verbatim>\<open>parameters\<close>, \<^verbatim>\<open>uri\<close>,
  \<^verbatim>\<open>include_content\<close>, \<^verbatim>\<open>content\<close>, \<^verbatim>\<open>content_type\<close>, \<^verbatim>\<open>container_uri\<close>, \<^verbatim>\<open>search_term\<close>,
  \<^verbatim>\<open>recursive\<close>) are properties of no primitive, array or blob, so there the result
  is \<^verbatim>\<open>undefined\<close>.
\<close>

fun getProp :: "jsval \<Rightarrow> string \<Rightarrow> jsval outcome" where
  "getProp JUndefined k =
     Reject (''Cannot read properties of undefined (reading '' @ [CHR 0x27] @ k @ [CHR 0x27] @ '')'')"
| "getProp JNull k =
     Reject (''Cannot read properties of null (reading '' @ [CHR 0x27] @ k @ [CHR 0x27] @ '')'')"
| "getProp (JObj kvs) k = Resolve (case map_of kvs k of Some v \<Rightarrow> v | None \<Rightarrow> JUndefined)"
| "getProp v k = Resolve JUndefined"

section \<open>String operations\<close>

definition str_includes :: "string \<Rightarrow> string \<Rightarrow> bool" where
  "str_includes s t = sublist t s"

definition startsWith :: "string \<Rightarrow> string \<Rightarrow> bool" where
  "startsWith s t = prefix t s"

definition endsWith :: "string \<Rightarrow> string \<Rightarrow> bool" where
  "endsWith s t = suffix t s"

text \<open>\<^verbatim>\<open>s.split(d)\<close> for a one-character separator: never empty, \<^verbatim>\<open>''.split(d) = ['']\<close>.\<close>

fun split :: "char \<Rightarrow> string \<Rightarrow> string list" where
  "split d [] = [[]]"
| "split d (c # s) =
     (if c = d then [] # split d s
      else (case split d s of l # ls \<Rightarrow> (c # l) # ls | [] \<Rightarrow> [[c]]))"

text \<open>
  The white space of JavaScript among the 8-bit characters: tab, the four line and page
  breaks, the space and the no-break space U+00A0. \<^verbatim>\<open>trim\<close> strips it from both ends.
\<close>

definition is_space :: "char \<Rightarrow> bool" where
  "is_space c = (c \<in> set [CHR 0x20, CHR 0x09, CHR 0x0A, CHR 0x0B, CHR 0x0C, CHR 0x0D, CHR 0xA0])"

definition trim :: "string \<Rightarrow> string" where
  "trim s = rev (dropWhile is_space (rev (dropWhile is_space s)))"

text \<open>
  \<^verbatim>\<open>toLowerCase\<close>: the capitals among the 8-bit characters are A to Z, U+00C0 to U+00D6 and
  U+00D8 to U+00DE; each has its small letter 32 places further on.
\<close>

definition lower_char :: "char \<Rightarrow> char" where
  "lower_char c =
     (let n = (of_char c :: nat)
      in if (65 \<le> n \<and> n \<le> 90) \<or> (192 \<le> n \<and> n \<le> 214) \<or> (216 \<le> n \<and> n \<le> 222)
         then char_of (n + 32) else c)"

definition toLowerCase :: "string \<Rightarrow> string" where
  "toLowerCase s = map lower_char s"

text \<open>
  The first capture group of the leftmost match of \<^verbatim>\<open>/a([^b]+)b/\<close>: \<^verbatim>\<open>/<([^>]+)>/\<close> and
  \<^verbatim>\<open>/"([^"]+)"/\<close> in the source. From a start at \<^verbatim>\<open>a\<close> the greedy class runs up to the next
  \<^verbatim>\<open>b\<close>; the match fails there when the run is empty or the input ends first, and the
  search goes on one character later.
\<close>

fun match_between :: "char \<Rightarrow> char \<Rightarrow> string \<Rightarrow> string option" where
  "match_between a b [] = None"
| "match_between a b (c # s) =
     (if c = a \<and> takeWhile (\<lambda>x. x \<noteq> b) s \<noteq> [] \<and> dropWhile (\<lambda>x. x \<noteq> b) s \<noteq> []
      then Some (takeWhile (\<lambda>x. x \<noteq> b) s)
      else match_between a b s)"

text \<open>Decimal rendering of a status code inside a template string.\<close>

fun show_nat :: "nat \<Rightarrow> string" where
  "show_nat n = (if n < 10 then [char_of (48 + n)] else show_nat (n div 10) @ [char_of (48 + n mod 10)])"

text \<open>
  \<^verbatim>\<open>parseInt(s, 10)\<close>: leading white space, an optional sign, then the decimal digits. The
  result is a Number: \<^verbatim>\<open>NaN\<close>, or a sign (\<open>True\<close> for minus, so that \<open>Finite True 0\<close> is \<^verbatim>\<open>-0\<close>)
  with a magnitude that a double holds exactly, or an infinity. The integer read is
  rounded to the nearest double, ties to even: up to 53 bits it is kept, beyond them the
  53 leading bits are kept and rounded, and from \<open>2 ^ 1024\<close> on the result is infinite.
\<close>

datatype num = NaN | Finite bool nat | Infinite bool

fun bit_length :: "nat \<Rightarrow> nat" where
  "bit_length n = (if n = 0 then 0 else Suc (bit_length (n div 2)))"

definition round_to_double :: "nat \<Rightarrow> nat option" where
  "round_to_double m =
     (if bit_length m \<le> 53 then Some m
      else (let k = bit_length m - 53;
                q = m div 2 ^ k;
                r = m mod 2 ^ k;
                q1 = (if 2 ^ k < 2 * r \<or> (2 * r = 2 ^ k \<and> odd q) then q + 1 else q)
            in if 2 ^ 1024 \<le> q1 * 2 ^ k then None else Some (q1 * 2 ^ k)))"

definition is_digit :: "char \<Rightarrow> bool" where
  "is_digit c = (48 \<le> (of_char c :: nat) \<and> (of_char c :: nat) \<le> 57)"

definition digits_value :: "string \<Rightarrow> nat" where
  "digits_value ds = foldl (\<lambda>acc c. 10 * acc + (of_char c - 48)) 0 ds"

definition parseInt :: "string \<Rightarrow> num" where
  "parseInt s =
     (let t = dropWhile is_space s;
          neg = (case t of c # r \<Rightarrow> c = CHR ''-'' | [] \<Rightarrow> False);
          r = (case t of c # r \<Rightarrow> if c = CHR ''-'' \<or> c = CHR ''+'' then r else t | [] \<Rightarrow> []);
          ds = takeWhile is_digit r
      in if ds = [] then NaN
         else (case round_to_double (digits_value ds) of
                 Some m \<Rightarrow> Finite neg m
               | None \<Rightarrow> Infinite neg))"

section \<open>The transport\<close>

text \<open>
  The injected \<^verbatim>\<open>fetch\<close> is called as \<^verbatim>\<open>fetchFn(url, {method, headers, body})\<close>. What it
  answers may depend on everything requested before, so the transport is a function of
  the log of earlier requests and the present one; a rejected or throwing call is
  \<open>Reject\<close>. A response carries its three deferred body readers; what a reader yields may
  depend on the readers already called on the same response (a Fetch API body can be
  read once, the plain objects of a test double any number of times).
\<close>

record request =
  url :: jsval
  http_method :: string
  headers :: "(string \<times> jsval) list"
  body :: jsval

datatype reader = RText | RJson | RBlob

record response =
  ok :: bool
  status :: nat
  statusText :: string
  get_header :: "string \<Rightarrow> string option"
  text_reader :: "reader list \<Rightarrow> string outcome"
  json_reader :: "reader list \<Rightarrow> jsval outcome"
  blob_reader :: "reader list \<Rightarrow> string outcome"

datatype auth_type = Bearer | DPoP | Cookie

record auth =
  auth_type :: auth_type
  token :: "string option"
  refreshToken :: "string option"

text \<open>
  The configuration of a client (\<^verbatim>\<open>podUrl\<close>, \<^verbatim>\<open>auth\<close>, \<^verbatim>\<open>fetch\<close>) together with the three
  functions of the JavaScript platform the code calls and this repository does not
  define: \<^verbatim>\<open>new URL(x).pathname\<close> (\<open>None\<close> when the constructor throws), the string
  conversion of a value inside a template string, and \<^verbatim>\<open>JSON.stringify\<close>.
\<close>

record env =
  podUrl :: string
  auth :: "auth option"
  fetchFn :: "request list \<Rightarrow> request \<Rightarrow> response outcome"
  URL_pathname :: "jsval \<Rightarrow> string option"
  String_of :: "jsval \<Rightarrow> string"
  JSON_stringify :: "jsval \<Rightarrow> jsval"

definition to_string :: "env \<Rightarrow> jsval \<Rightarrow> string" where
  "to_string e v = (case v of JStr s \<Rightarrow> s | _ \<Rightarrow> String_of e v)"

text \<open>Asynchronous code threads the log of transport calls and stops at the first throw.\<close>

type_synonym 'a io = "request list \<Rightarrow> 'a outcome \<times> request list"

definition ret :: "'a \<Rightarrow> 'a io" where
  "ret x = (\<lambda>lg. (Resolve x, lg))"

definition throw :: "string \<Rightarrow> 'a io" where
  "throw m = (\<lambda>lg. (Reject m, lg))"

definition await :: "'a outcome \<Rightarrow> 'a io" where
  "await r = (\<lambda>lg. (r, lg))"

definition bind :: "'a io \<Rightarrow> ('a \<Rightarrow> 'b io) \<Rightarrow> 'b io" where
  "bind m f = (\<lambda>lg. case m lg of (Resolve x, lg') \<Rightarrow> f x lg' | (Reject e, lg') \<Rightarrow> (Reject e, lg'))"

definition catch :: "'a io \<Rightarrow> (string \<Rightarrow> 'a io) \<Rightarrow> 'a io" where
  "catch m h = (\<lambda>lg. case m lg of (Resolve x, lg') \<Rightarrow> (Resolve x, lg') | (Reject e, lg') \<Rightarrow> h e lg')"

definition fetch :: "env \<Rightarrow> request \<Rightarrow> response io" where
  "fetch e req = (\<lambda>lg. (fetchFn e lg req, lg @ [req]))"

section \<open>Resources\<close>

datatype resource_type = Container | Resource

record permissions =
  perm_read :: bool
  perm_write :: bool
  perm_append :: bool
  perm_control :: bool

text \<open>\<^verbatim>\<open>SolidResource\<close>; an optional property that is absent or \<^verbatim>\<open>undefined\<close> is \<open>None\<close>.\<close>

record resource =
  uri :: jsval
  rtype :: resource_type
  contentType :: "string option"
  modified :: "string option"
  rsize :: "num option"
  permissions :: "permissions option"

text \<open>\<^verbatim>\<open>SolidResourceResponse\<close>.\<close>

record resource_response =
  resource :: resource
  content :: "jsval option"
  children :: "resource list option"

section \<open>Utilities\<close>

text \<open>
  \<^verbatim>\<open>normalizeUrl(uri, baseUrl)\<close>. When \<^verbatim>\<open>new URL(uri)\<close> throws, the handler calls
  \<^verbatim>\<open>uri.startsWith\<close>, which is itself a TypeError on anything but a string.
\<close>

definition normalizeUrl :: "env \<Rightarrow> jsval \<Rightarrow> string \<Rightarrow> jsval outcome" where
  "normalizeUrl e u baseUrl =
     (case URL_pathname e u of
        Some p \<Rightarrow> Resolve u
      | None \<Rightarrow>
          (case u of
             JStr s \<Rightarrow>
               (let base = (if endsWith baseUrl ''/'' then baseUrl else baseUrl @ ''/'');
                    path = (if startsWith s ''/'' then drop 1 s else s)
                in Resolve (JStr (base @ path)))
           | JUndefined \<Rightarrow>
               Reject (''Cannot read properties of undefined (reading '' @ [CHR 0x27] @ ''startsWith'' @ [CHR 0x27] @ '')'')
           | JNull \<Rightarrow>
               Reject (''Cannot read properties of null (reading '' @ [CHR 0x27] @ ''startsWith'' @ [CHR 0x27] @ '')'')
           | _ \<Rightarrow> Reject ''uri.startsWith is not a function''))"

text \<open>
  \<^verbatim>\<open>parseResourceMetadata\<close>: the state of the loop over the lines is the three variables
  \<^verbatim>\<open>currentUri\<close>, \<^verbatim>\<open>isContainer\<close>, \<^verbatim>\<open>contentType\<close> and the growing \<^verbatim>\<open>resources\<close>.
\<close>

definition ldp_Container :: string where
  "ldp_Container = ''http://www.w3.org/ns/ldp#Container''"

definition dc_format :: string where
  "dc_format = ''http://purl.org/dc/terms/format''"

record parse_state =
  currentUri :: string
  isContainerFlag :: bool
  contentTypeVar :: string
  resources :: "resource list"

text \<open>One iteration of the \<^verbatim>\<open>for (const line of lines)\<close> body.\<close>

definition parse_line :: "jsval \<Rightarrow> parse_state \<Rightarrow> string \<Rightarrow> parse_state" where
  "parse_line containerUrl st line =
     (let trimmedLine = trim line;
          uriMatch = (if str_includes trimmedLine ''<http'' \<and> str_includes trimmedLine ''>''
                      then match_between CHR ''<'' CHR ''>'' trimmedLine else None);
          st1 = (case uriMatch of
                   Some u \<Rightarrow> st\<lparr>currentUri := u, isContainerFlag := False, contentTypeVar := []\<rparr>
                 | None \<Rightarrow> st);
          st2 = (if str_includes trimmedLine ldp_Container then st1\<lparr>isContainerFlag := True\<rparr> else st1);
          st3 = (if str_includes trimmedLine dc_format
                 then (case match_between (CHR 0x22) (CHR 0x22) trimmedLine of
                         Some t \<Rightarrow> st2\<lparr>contentTypeVar := t\<rparr> | None \<Rightarrow> st2)
                 else st2)
      in if currentUri st3 \<noteq> [] \<and>
            (endsWith trimmedLine ''.'' \<or> endsWith trimmedLine '';'' \<or> trimmedLine = [])
         then (if JStr (currentUri st3) \<noteq> containerUrl
               then st3\<lparr>currentUri := [],
                        resources := resources st3 @
                          [\<lparr>uri = JStr (currentUri st3),
                            rtype = (if isContainerFlag st3 then Container else Resource),
                            contentType = (if contentTypeVar st3 = [] then None
                                           else Some (contentTypeVar st3)),
                            modified = None, rsize = None, permissions = None\<rparr>]\<rparr>
               else st3\<lparr>currentUri := []\<rparr>)
         else st3)"

definition parseResourceMetadata :: "string \<Rightarrow> jsval \<Rightarrow> resource list" where
  "parseResourceMetadata turtleContent containerUrl =
     resources
       (foldl (parse_line containerUrl)
          \<lparr>currentUri = [], isContainerFlag = False, contentTypeVar = [], resources = []\<rparr>
          (split (CHR 0x0A) turtleContent))"

text \<open>\<^verbatim>\<open>getFilenameFromUrl\<close>; \<^verbatim>\<open>new URL(url)\<close> throws on what does not parse.\<close>

definition getFilenameFromUrl :: "env \<Rightarrow> jsval \<Rightarrow> string outcome" where
  "getFilenameFromUrl e u =
     (case URL_pathname e u of
        None \<Rightarrow> Reject ''Invalid URL''
      | Some pathname \<Rightarrow> Resolve (last (split CHR ''/'' pathname)))"

section \<open>The client\<close>

definition getAuthHeaders :: "env \<Rightarrow> (string \<times> jsval) list" where
  "getAuthHeaders e =
     (let headers = [(''Accept'', JStr ''application/ld+json, application/json, text/turtle'')]
      in case auth e of
           None \<Rightarrow> headers
         | Some a \<Rightarrow>
             (case token a of
                None \<Rightarrow> headers
              | Some t \<Rightarrow>
                  if auth_type a = Bearer \<and> t \<noteq> []
                  then AList.update ''Authorization'' (JStr (''Bearer '' @ t)) headers
                  else if auth_type a = DPoP \<and> t \<noteq> []
                  then AList.update ''Authorization'' (JStr (''DPoP '' @ t)) headers
                  else headers))"

text \<open>\<^verbatim>\<open>isContainer(response)\<close>, on a response whose readers \<open>hist\<close> were called before.\<close>

definition isContainer :: "response \<Rightarrow> reader list \<Rightarrow> bool outcome" where
  "isContainer response hist =
     (case text_reader response hist of
        Resolve txt \<Rightarrow> Resolve (str_includes txt ldp_Container)
      | Reject m \<Rightarrow> Reject m)"

text \<open>
  \<^verbatim>\<open>getPermissions\<close> is a \<^verbatim>\<open>try\<close> whose \<^verbatim>\<open>catch\<close> logs the error and returns \<^verbatim>\<open>undefined\<close>;
  \<open>permissions_try\<close> is that frame around a block. The block of the source returns a
  literal record.
\<close>

definition permissions_try :: "permissions option io \<Rightarrow> permissions option io" where
  "permissions_try block = catch block (\<lambda>m. ret None)"

definition getPermissions :: "jsval \<Rightarrow> permissions option io" where
  "getPermissions resourceUrl =
     permissions_try
       (ret (Some \<lparr>perm_read = True, perm_write = True, perm_append = True, perm_control = False\<rparr>))"

definition listContainerContents :: "env \<Rightarrow> jsval \<Rightarrow> resource list io" where
  "listContainerContents e containerUrl =
     catch
       (bind (fetch e \<lparr>url = containerUrl, http_method = ''GET'', headers = getAuthHeaders e, body = JUndefined\<rparr>)
          (\<lambda>response.
             if \<not> ok response
             then throw (''Failed to list container contents: '' @ show_nat (status response) @ '' '' @ statusText response)
             else bind (await (text_reader response []))
                    (\<lambda>txt. ret (parseResourceMetadata txt containerUrl))))
       (\<lambda>m. throw (''Error listing container contents: '' @ m))"

text \<open>
  The \<^verbatim>\<open>if (includeContent)\<close> block of \<^verbatim>\<open>readResource\<close>: which reader decodes the body.
\<close>

definition decodeContent :: "response \<Rightarrow> string \<Rightarrow> reader list \<Rightarrow> jsval outcome" where
  "decodeContent response ctype hist =
     (if str_includes ctype ''application/json'' \<or> str_includes ctype ''application/ld+json''
      then json_reader response hist
      else if str_includes ctype ''text/''
      then (case text_reader response hist of Resolve t \<Rightarrow> Resolve (JStr t) | Reject m \<Rightarrow> Reject m)
      else (case blob_reader response hist of Resolve b \<Rightarrow> Resolve (JBlob b) | Reject m \<Rightarrow> Reject m))"

text \<open>
  \<^verbatim>\<open>readResource\<close>. \<^verbatim>\<open>normalizeUrl\<close> runs before the \<^verbatim>\<open>try\<close>, so what it throws is not
  wrapped. The container check reads \<^verbatim>\<open>response.text()\<close> only when the content type
  names turtle; the decoding that follows meets the same response with that read
  already made.
\<close>

definition readResource :: "env \<Rightarrow> jsval \<Rightarrow> bool \<Rightarrow> resource_response io" where
  "readResource e u includeContent =
     (\<lambda>lg. case normalizeUrl e u (podUrl e) of
        Reject m \<Rightarrow> (Reject m, lg)
      | Resolve resourceUrl \<Rightarrow>
          catch
            (bind (fetch e \<lparr>url = resourceUrl, http_method = ''GET'', headers = getAuthHeaders e, body = JUndefined\<rparr>)
               (\<lambda>response.
                  if \<not> ok response
                  then throw (''Failed to read resource: '' @ show_nat (status response) @ '' '' @ statusText response)
                  else
                    let ctype = (case get_header response ''Content-Type'' of Some v \<Rightarrow> v | None \<Rightarrow> []);
                        lastModified = (case get_header response ''Last-Modified'' of Some v \<Rightarrow> v | None \<Rightarrow> []);
                        contentLength = get_header response ''Content-Length'';
                        turtle = str_includes ctype ''text/turtle''
                    in bind (if turtle then await (isContainer response []) else ret False)
                         (\<lambda>isC.
                    bind (getPermissions resourceUrl)
                         (\<lambda>perms.
                    let res = \<lparr>uri = resourceUrl,
                               rtype = (if isC then Container else Resource),
                               contentType = Some ctype,
                               modified = Some lastModified,
                               rsize = (case contentLength of
                                          None \<Rightarrow> None
                                        | Some l \<Rightarrow> if l = [] then None else Some (parseInt l)),
                               permissions = perms\<rparr>
                    in bind (if includeContent
                             then bind (await (decodeContent response ctype (if turtle then [RText] else [])))
                                    (\<lambda>c. ret (Some c))
                             else ret None)
                         (\<lambda>cont.
                    bind (if isC
                          then bind (listContainerContents e resourceUrl) (\<lambda>cs. ret (Some cs))
                          else ret None)
                         (\<lambda>chs. ret \<lparr>resource = res, content = cont, children = chs\<rparr>))))))
            (\<lambda>m. throw (''Error reading resource '' @ to_string e resourceUrl @ '': '' @ m))
            lg)"

text \<open>
  \<^verbatim>\<open>writeResource\<close>. The read-back is returned, not awaited, inside the \<^verbatim>\<open>try\<close>: what it
  throws passes the \<^verbatim>\<open>catch\<close> by.
\<close>

definition writeResource :: "env \<Rightarrow> jsval \<Rightarrow> jsval \<Rightarrow> jsval \<Rightarrow> resource_response io" where
  "writeResource e u cont ctype =
     (\<lambda>lg. case normalizeUrl e u (podUrl e) of
        Reject m \<Rightarrow> (Reject m, lg)
      | Resolve resourceUrl \<Rightarrow>
          bind
            (catch
               (let headers0 = AList.update ''Content-Type'' ctype (getAuthHeaders e);
                    body1 = (case cont of JStr s \<Rightarrow> cont | JBlob b \<Rightarrow> cont | _ \<Rightarrow> JSON_stringify e cont);
                    headers1 = (case cont of
                                  JStr s \<Rightarrow> headers0
                                | JBlob b \<Rightarrow> headers0
                                | _ \<Rightarrow> AList.update ''Content-Type'' (JStr ''application/json'') headers0)
                in bind (fetch e \<lparr>url = resourceUrl, http_method = ''PUT'', headers = headers1, body = body1\<rparr>)
                     (\<lambda>response.
                        if \<not> ok response
                        then throw (''Failed to write resource: '' @ show_nat (status response) @ '' '' @ statusText response)
                        else ret ()))
               (\<lambda>m. throw (''Error writing resource '' @ to_string e resourceUrl @ '': '' @ m)))
            (\<lambda>_. readResource e resourceUrl True)
            lg)"

definition deleteResource :: "env \<Rightarrow> jsval \<Rightarrow> bool io" where
  "deleteResource e u =
     (\<lambda>lg. case normalizeUrl e u (podUrl e) of
        Reject m \<Rightarrow> (Reject m, lg)
      | Resolve resourceUrl \<Rightarrow>
          catch
            (bind (fetch e \<lparr>url = resourceUrl, http_method = ''DELETE'', headers = getAuthHeaders e, body = JUndefined\<rparr>)
               (\<lambda>response.
                  if \<not> ok response
                  then throw (''Failed to delete resource: '' @ show_nat (status response) @ '' '' @ statusText response)
                  else ret True))
            (\<lambda>m. throw (''Error deleting resource '' @ to_string e resourceUrl @ '': '' @ m))
            lg)"

definition createContainer :: "env \<Rightarrow> jsval \<Rightarrow> resource_response io" where
  "createContainer e u =
     (\<lambda>lg. case normalizeUrl e u (podUrl e) of
        Reject m \<Rightarrow> (Reject m, lg)
      | Resolve containerUrl \<Rightarrow>
          bind
            (catch
               (let headers0 = AList.update ''Link''
                                 (JStr (''<http://www.w3.org/ns/ldp#BasicContainer>; rel='' @ [CHR 0x22] @ ''type'' @ [CHR 0x22]))
                                 (getAuthHeaders e);
                    headers1 = AList.update ''Content-Type'' (JStr ''text/turtle'') headers0
                in bind (fetch e \<lparr>url = containerUrl, http_method = ''PUT'', headers = headers1, body = JUndefined\<rparr>)
                     (\<lambda>response.
                        if \<not> ok response
                        then throw (''Failed to create container: '' @ show_nat (status response) @ '' '' @ statusText response)
                        else ret ()))
               (\<lambda>m. throw (''Error creating container '' @ to_string e containerUrl @ '': '' @ m)))
            (\<lambda>_. readResource e containerUrl True)
            lg)"

section \<open>The server\<close>

text \<open>A search hit is \<^verbatim>\<open>{...child, relevance: 0.8}\<close>.\<close>

record hit =
  hit_resource :: resource
  relevance :: rat

datatype tool_result =
    ReadResult resource_response
  | DeleteResult bool
  | ListResult resource "resource list"
  | CreateResult resource
  | SearchResult "hit list"

datatype mcp_response = Success tool_result | Error string

text \<open>\<^verbatim>\<open>searchTerm.toLowerCase()\<close> on a value of any type.\<close>

fun toLowerCase_any :: "jsval \<Rightarrow> string outcome" where
  "toLowerCase_any (JStr s) = Resolve (toLowerCase s)"
| "toLowerCase_any JUndefined =
     Reject (''Cannot read properties of undefined (reading '' @ [CHR 0x27] @ ''toLowerCase'' @ [CHR 0x27] @ '')'')"
| "toLowerCase_any JNull =
     Reject (''Cannot read properties of null (reading '' @ [CHR 0x27] @ ''toLowerCase'' @ [CHR 0x27] @ '')'')"
| "toLowerCase_any v = Reject ''searchTerm.toLowerCase is not a function''"

text \<open>
  \<^verbatim>\<open>searchResources\<close> calls itself for every child container and nothing bounds the
  depth, so the model counts calls down from a fuel: \<open>None\<close> is a recursion that did not
  come back within it. \<open>search_children\<close> is the \<^verbatim>\<open>for (const child of result.children)\<close>
  loop with \<^verbatim>\<open>searchResults\<close> as accumulator; what it throws is caught by the \<^verbatim>\<open>catch\<close> of
  the enclosing call, which logs the error and returns \<^verbatim>\<open>[]\<close>.
\<close>

fun searchResources :: "nat \<Rightarrow> env \<Rightarrow> jsval \<Rightarrow> jsval \<Rightarrow> bool \<Rightarrow> request list \<Rightarrow> (hit list \<times> request list) option"
  and search_children :: "nat \<Rightarrow> env \<Rightarrow> jsval \<Rightarrow> string \<Rightarrow> bool \<Rightarrow> resource list \<Rightarrow> hit list \<Rightarrow> request list \<Rightarrow> (hit list outcome \<times> request list) option"
  where
  "searchResources 0 e containerUri searchTerm recursive lg = None"
| "searchResources (Suc n) e containerUri searchTerm recursive lg =
     (case readResource e containerUri False lg of
        (Reject m, lg1) \<Rightarrow> Some ([], lg1)
      | (Resolve result, lg1) \<Rightarrow>
          (case children result of
             None \<Rightarrow> Some ([], lg1)
           | Some [] \<Rightarrow> Some ([], lg1)
           | Some (c # cs) \<Rightarrow>
               (case toLowerCase_any searchTerm of
                  Reject m \<Rightarrow> Some ([], lg1)
                | Resolve lowerSearchTerm \<Rightarrow>
                    (case search_children n e searchTerm lowerSearchTerm recursive (c # cs) [] lg1 of
                       None \<Rightarrow> None
                     | Some (Reject m, lg2) \<Rightarrow> Some ([], lg2)
                     | Some (Resolve searchResults, lg2) \<Rightarrow> Some (searchResults, lg2)))))"
| "search_children n e searchTerm lowerSearchTerm recursive [] searchResults lg =
     Some (Resolve searchResults, lg)"
| "search_children n e searchTerm lowerSearchTerm recursive (child # rest) searchResults lg =
     (case getFilenameFromUrl e (uri child) of
        Reject m \<Rightarrow> Some (Reject m, lg)
      | Resolve filename \<Rightarrow>
          (let searchResults1 =
                 (if str_includes (toLowerCase filename) lowerSearchTerm
                  then searchResults @ [\<lparr>hit_resource = child, relevance = 8 / 10\<rparr>]
                  else searchResults)
           in if recursive \<and> rtype child = Container
              then (case searchResources n e (uri child) searchTerm recursive lg of
                      None \<Rightarrow> None
                    | Some (childResults, lg2) \<Rightarrow>
                        search_children n e searchTerm lowerSearchTerm recursive rest
                          (searchResults1 @ childResults) lg2)
              else search_children n e searchTerm lowerSearchTerm recursive rest searchResults1 lg))"

text \<open>
  \<^verbatim>\<open>createTools\<close>: the registry, in the order of the source. An executor takes the fuel of
  the search, which the five others do not use, and the parameters as they came.
\<close>

record tool =
  name :: string
  execute :: "nat \<Rightarrow> jsval \<Rightarrow> request list \<Rightarrow> (tool_result outcome \<times> request list) option"

definition map_io :: "('a \<Rightarrow> 'b) \<Rightarrow> 'a io \<Rightarrow> 'b io" where
  "map_io f m = bind m (\<lambda>x. ret (f x))"

definition execute_read :: "env \<Rightarrow> jsval \<Rightarrow> tool_result io" where
  "execute_read e params =
     bind (await (getProp params ''uri'')) (\<lambda>u.
     bind (await (getProp params ''include_content'')) (\<lambda>inc.
     map_io ReadResult (readResource e u (if inc = JUndefined then True else truthy inc))))"

definition execute_write :: "env \<Rightarrow> jsval \<Rightarrow> tool_result io" where
  "execute_write e params =
     bind (await (getProp params ''uri'')) (\<lambda>u.
     bind (await (getProp params ''content'')) (\<lambda>c.
     bind (await (getProp params ''content_type'')) (\<lambda>t.
     map_io ReadResult (writeResource e u c t))))"

definition execute_delete :: "env \<Rightarrow> jsval \<Rightarrow> tool_result io" where
  "execute_delete e params =
     bind (await (getProp params ''uri'')) (\<lambda>u.
     map_io DeleteResult (deleteResource e u))"

definition execute_list :: "env \<Rightarrow> jsval \<Rightarrow> tool_result io" where
  "execute_list e params =
     bind (await (getProp params ''uri'')) (\<lambda>u.
     map_io (\<lambda>r. ListResult (resource r) (case children r of Some cs \<Rightarrow> cs | None \<Rightarrow> []))
       (readResource e u False))"

definition execute_create :: "env \<Rightarrow> jsval \<Rightarrow> tool_result io" where
  "execute_create e params =
     bind (await (getProp params ''uri'')) (\<lambda>u.
     map_io (\<lambda>r. CreateResult (resource r)) (createContainer e u))"

definition execute_search :: "env \<Rightarrow> nat \<Rightarrow> jsval \<Rightarrow> request list \<Rightarrow> (tool_result outcome \<times> request list) option" where
  "execute_search e n params lg =
     (case getProp params ''container_uri'' of
        Reject m \<Rightarrow> Some (Reject m, lg)
      | Resolve u \<Rightarrow>
          (case getProp params ''search_term'' of
             Reject m \<Rightarrow> Some (Reject m, lg)
           | Resolve t \<Rightarrow>
               (case getProp params ''recursive'' of
                  Reject m \<Rightarrow> Some (Reject m, lg)
                | Resolve r \<Rightarrow>
                    (case searchResources n e u t (truthy r) lg of
                       None \<Rightarrow> None
                     | Some (results, lg1) \<Rightarrow> Some (Resolve (SearchResult results), lg1)))))"

definition createTools :: "env \<Rightarrow> tool list" where
  "createTools e =
     [\<lparr>name = ''read_resource'', execute = (\<lambda>n params lg. Some (execute_read e params lg))\<rparr>,
      \<lparr>name = ''write_resource'', execute = (\<lambda>n params lg. Some (execute_write e params lg))\<rparr>,
      \<lparr>name = ''delete_resource'', execute = (\<lambda>n params lg. Some (execute_delete e params lg))\<rparr>,
      \<lparr>name = ''list_container'', execute = (\<lambda>n params lg. Some (execute_list e params lg))\<rparr>,
      \<lparr>name = ''create_container'', execute = (\<lambda>n params lg. Some (execute_create e params lg))\<rparr>,
      \<lparr>name = ''search'', execute = execute_search e\<rparr>]"

text \<open>The body of the \<^verbatim>\<open>try\<close> of \<^verbatim>\<open>handleRequest\<close>, up to the result of the executor.\<close>

definition handle_try :: "nat \<Rightarrow> env \<Rightarrow> jsval \<Rightarrow> request list \<Rightarrow> (tool_result outcome \<times> request list) option" where
  "handle_try n e request lg =
     (case getProp request ''action'' of
        Reject m \<Rightarrow> Some (Reject m, lg)
      | Resolve action \<Rightarrow>
          if \<not> truthy action \<or> typeof action \<noteq> ''string''
          then Some (Reject ''Invalid request: missing or invalid action'', lg)
          else
            (case getProp request ''parameters'' of
               Reject m \<Rightarrow> Some (Reject m, lg)
             | Resolve parameters \<Rightarrow>
                 if \<not> truthy parameters \<or> typeof parameters \<noteq> ''object''
                 then Some (Reject ''Invalid request: missing or invalid parameters'', lg)
                 else
                   (case find (\<lambda>t. JStr (name t) = action) (createTools e) of
                      None \<Rightarrow> Some (Reject (''Unknown action: '' @ to_string e action), lg)
                    | Some t \<Rightarrow> execute t n parameters lg)))"

text \<open>
  \<^verbatim>\<open>handleRequest\<close>: the value returned in the \<^verbatim>\<open>try\<close> is the success envelope, the
  \<^verbatim>\<open>catch\<close> turns what was thrown into the error envelope.
\<close>

definition handleRequest :: "nat \<Rightarrow> env \<Rightarrow> jsval \<Rightarrow> request list \<Rightarrow> (mcp_response outcome \<times> request list) option" where
  "handleRequest n e request lg =
     (case handle_try n e request lg of
        None \<Rightarrow> None
      | Some (Resolve r, lg1) \<Rightarrow> Some (Resolve (Success r), lg1)
      | Some (Reject m, lg1) \<Rightarrow> Some (Resolve (Error m), lg1))"

section \<open>Notions of the specification\<close>

text \<open>The one \<^verbatim>\<open>GET\<close> request the client ever builds for a locator.\<close>

definition get_request :: "env \<Rightarrow> jsval \<Rightarrow> request" where
  "get_request e resourceUrl =
     \<lparr>url = resourceUrl, http_method = ''GET'', headers = getAuthHeaders e, body = JUndefined\<rparr>"

text \<open>
  The normalizer in the words of the specification: the base with a trailing path
  delimiter ensured, and the input with its leading delimiter, if it has one, removed.
\<close>

definition with_trailing_slash :: "string \<Rightarrow> string" where
  "with_trailing_slash b = (if b \<noteq> [] \<and> last b = CHR ''/'' then b else b @ [CHR ''/''])"

definition strip_leading_slash :: "string \<Rightarrow> string" where
  "strip_leading_slash u = (case u of [] \<Rightarrow> [] | c # r \<Rightarrow> if c = CHR ''/'' then r else u)"

text \<open>
  A container document with one statement on each line and every term a full IRI: the
  line that types the locator as a container, then one line for each child giving its
  format.
\<close>

definition container_line :: "string \<Rightarrow> string" where
  "container_line loc = ''<'' @ loc @ ''> a <'' @ ldp_Container @ ''>.''"

definition format_line :: "string \<Rightarrow> string \<Rightarrow> string" where
  "format_line c t = ''<'' @ c @ ''> <'' @ dc_format @ ''> '' @ [CHR 0x22] @ t @ [CHR 0x22] @ ''.''"

definition flat_document :: "string \<Rightarrow> string \<Rightarrow> string \<Rightarrow> string \<Rightarrow> string \<Rightarrow> string" where
  "flat_document loc c1 t1 c2 t2 =
     container_line loc @ [CHR 0x0A] @ format_line c1 t1 @ [CHR 0x0A] @ format_line c2 t2"

text \<open>A locator or a media type that can stand in such a line as it is.\<close>

definition line_safe :: "string \<Rightarrow> bool" where
  "line_safe s = (s \<noteq> [] \<and> CHR ''>'' \<notin> set s \<and> CHR 0x22 \<notin> set s \<and> CHR 0x0A \<notin> set s)"

text \<open>
  The steps a search takes from a locator to the next: \<open>(c, p)\<close> when some read of \<open>p\<close> lists
  a child container with locator \<open>c\<close>. The container graph of a search started at \<open>u\<close> is
  the part of it that can be reached from \<open>u\<close>: the locators a search of \<open>u\<close> can come to
  read, each as the caller or a listing spells it.
\<close>

definition contains :: "env \<Rightarrow> (jsval \<times> jsval) set" where
  "contains e =
     {(c, p). \<exists>lg r lg1 chs ch.
        readResource e p False lg = (Resolve r, lg1) \<and> children r = Some chs \<and>
        ch \<in> set chs \<and> rtype ch = Container \<and> uri ch = c}"

definition container_graph :: "env \<Rightarrow> jsval \<Rightarrow> (jsval \<times> jsval) set" where
  "container_graph e u = {(c, p). (c, p) \<in> contains e \<and> (p, u) \<in> (contains e)\<^sup>*}"

text \<open>A promise that was rejected, an operation that threw.\<close>

definition rejects :: "'a outcome \<Rightarrow> bool" where
  "rejects x = (case x of Resolve v \<Rightarrow> False | Reject m \<Rightarrow> True)"


text \<open>
  The loop over the children \<open>cs\<close> comes to descend into a container of the set \<open>S\<close>: one is
  listed, and its locator and those of the children before it all have a file name. A set of
  locators is a trap when every read of one of them succeeds and lists children that
  lead into the set again: a cycle of containers that list each other is one, an endless
  chain of nested containers another.
\<close>

fun walks_into :: "env \<Rightarrow> jsval set \<Rightarrow> resource list \<Rightarrow> bool" where
  "walks_into e S [] = False"
| "walks_into e S (c # cs) =
     (\<not> rejects (getFilenameFromUrl e (uri c)) \<and>
      ((rtype c = Container \<and> uri c \<in> S) \<or> walks_into e S cs))"

definition trap :: "env \<Rightarrow> jsval set \<Rightarrow> bool" where
  "trap e S =
     (\<forall>p \<in> S. \<forall>lg.
        case readResource e p False lg of
          (Resolve r, lg1) \<Rightarrow> (case children r of Some cs \<Rightarrow> walks_into e S cs | None \<Rightarrow> False)
        | (Reject m, lg1) \<Rightarrow> False)"











text \<open>
  The failures inside the dispatcher: the request is \<^verbatim>\<open>null\<close> or \<^verbatim>\<open>undefined\<close>, its action or
  its parameters do not pass the validation, the action is not registered, or the
  operation it names fails on the parameters given. No failure is counted for the
  action \<^verbatim>\<open>search\<close>: it is the one whose failures stay inside.
\<close>

definition property :: "jsval \<Rightarrow> string \<Rightarrow> jsval" where
  "property params k = (case getProp params k of Resolve v \<Rightarrow> v | Reject m \<Rightarrow> JUndefined)"





section \<open>A pod to run the model on\<close>

text \<open>
  Stand-ins for the platform and the transport, for running the model on concrete
  inputs. \<open>demo_pathname\<close> agrees with \<^verbatim>\<open>new URL(x).pathname\<close> on the plain \<^verbatim>\<open>http://\<close>
  locators used below and rejects what has no scheme; \<open>demo_stringify\<close> agrees with
  \<^verbatim>\<open>JSON.stringify\<close> on the values it lists and renders every other value by a
  placeholder.
\<close>

definition demo_pathname :: "jsval \<Rightarrow> string option" where
  "demo_pathname v =
     (case v of
        JStr s \<Rightarrow>
          (if prefix ''http://'' s
           then (let rest = drop 7 s;
                     host = takeWhile (\<lambda>c. c \<noteq> CHR ''/'') rest;
                     path = takeWhile (\<lambda>c. c \<noteq> CHR ''?'' \<and> c \<noteq> CHR ''#'')
                              (dropWhile (\<lambda>c. c \<noteq> CHR ''/'') rest)
                 in if host = [] then None else Some (if path = [] then ''/'' else path))
           else None)
      | _ \<Rightarrow> None)"

fun demo_stringify :: "jsval \<Rightarrow> jsval" where
  "demo_stringify JUndefined = JUndefined"
| "demo_stringify JNull = JStr ''null''"
| "demo_stringify (JBool b) = JStr (if b then ''true'' else ''false'')"
| "demo_stringify (JArr []) = JStr ''[]''"
| "demo_stringify (JObj []) = JStr ''{}''"
| "demo_stringify v = JStr ''{...}''"

text \<open>
  A response of the pod. With \<open>once\<close> its body can be read a single time, as the body of
  a Fetch API response; without, its readers answer every time, as those of the test
  doubles in the repository do.
\<close>

definition pod_response :: "bool \<Rightarrow> string \<Rightarrow> string \<Rightarrow> response" where
  "pod_response once ctype txt =
     \<lparr>ok = True, status = 200, statusText = ''OK'',
      get_header = (\<lambda>k. if k = ''Content-Type'' then Some ctype else None),
      text_reader = (\<lambda>hist. if once \<and> hist \<noteq> [] then Reject ''Body is unusable'' else Resolve txt),
      json_reader = (\<lambda>hist. if once \<and> hist \<noteq> [] then Reject ''Body is unusable'' else Reject ''Not JSON''),
      blob_reader = (\<lambda>hist. if once \<and> hist \<noteq> [] then Reject ''Body is unusable'' else Resolve txt)\<rparr>"

definition not_found :: response where
  "not_found =
     \<lparr>ok = False, status = 404, statusText = ''Not Found'',
      get_header = (\<lambda>k. None),
      text_reader = (\<lambda>hist. Resolve ''Not Found''),
      json_reader = (\<lambda>hist. Reject ''Not JSON''),
      blob_reader = (\<lambda>hist. Resolve ''Not Found'')\<rparr>"

text \<open>
  A pod at \<^verbatim>\<open>http://pod\<close> holding the documents \<open>docs\<close>, all of one content type: a \<^verbatim>\<open>GET\<close>
  of a stored locator answers its text, of any other locator 404; every other method
  succeeds with an empty body.
\<close>

definition pod :: "bool \<Rightarrow> string \<Rightarrow> (string \<times> string) list \<Rightarrow> env" where
  "pod once ctype docs =
     \<lparr>podUrl = ''http://pod'', auth = None,
      fetchFn = (\<lambda>lg req.
        if http_method req \<noteq> ''GET'' then Resolve (pod_response once ''text/plain'' [])
        else (case url req of
                JStr s \<Rightarrow> (case map_of docs s of
                             Some txt \<Rightarrow> Resolve (pod_response once ctype txt)
                           | None \<Rightarrow> Resolve not_found)
              | _ \<Rightarrow> Resolve not_found)),
      URL_pathname = demo_pathname,
      String_of = (\<lambda>v. ''[object]''),
      JSON_stringify = demo_stringify\<rparr>"



text \<open>A transport that cannot reach the pod: every call is rejected.\<close>

definition unreachable :: env where
  "unreachable =
     \<lparr>podUrl = ''http://pod'', auth = None,
      fetchFn = (\<lambda>lg req. Reject ''Network error''),
      URL_pathname = demo_pathname,
      String_of = (\<lambda>v. ''[object]''),
      JSON_stringify = demo_stringify\<rparr>"

text \<open>
  The documents. \<open>prefixed_doc\<close> is a container description in Turtle's usual prefixed
  form, as the test data of the repository are; \<open>nested_doc\<close> is the same with every term
  a full IRI; \<open>flat_doc\<close> has one statement on each line.
\<close>

definition prefixed_doc :: string where
  "prefixed_doc =
     ''@prefix ldp: <http://www.w3.org/ns/ldp#>.'' @ [CHR 0x0A] @
     ''@prefix dc: <http://purl.org/dc/terms/>.'' @ [CHR 0x0A] @
     ''<http://pod/c/> a ldp:Container;'' @ [CHR 0x0A] @
     ''  ldp:contains <http://pod/c/a.txt>, <http://pod/c/b.txt>.'' @ [CHR 0x0A] @
     ''<http://pod/c/a.txt> dc:format '' @ [CHR 0x22] @ ''text/plain'' @ [CHR 0x22] @ ''.'' @ [CHR 0x0A] @
     ''<http://pod/c/b.txt> dc:format '' @ [CHR 0x22] @ ''application/json'' @ [CHR 0x22] @ ''.''"

definition nested_doc :: string where
  "nested_doc =
     ''<http://pod/c/> a <http://www.w3.org/ns/ldp#Container>;'' @ [CHR 0x0A] @
     ''  <http://www.w3.org/ns/ldp#contains> <http://pod/c/a.txt>, <http://pod/c/b.txt>.'' @ [CHR 0x0A] @
     ''<http://pod/c/a.txt> <http://purl.org/dc/terms/format> '' @ [CHR 0x22] @ ''text/plain'' @ [CHR 0x22] @ ''.'' @ [CHR 0x0A] @
     ''<http://pod/c/b.txt> <http://purl.org/dc/terms/format> '' @ [CHR 0x22] @ ''application/json'' @ [CHR 0x22] @ ''.''"

definition flat_doc :: string where
  "flat_doc = flat_document ''http://pod/c/'' ''http://pod/c/a.txt'' ''text/plain''
                ''http://pod/c/b.txt'' ''application/json''"

text \<open>A container described in JSON-LD, and the pod that serves it as such.\<close>

definition jsonld_doc :: string where
  "jsonld_doc =
     ''{'' @ [CHR 0x22] @ ''@id'' @ [CHR 0x22] @ '': '' @ [CHR 0x22] @ ''http://pod/c/'' @ [CHR 0x22] @ '', '' @
     [CHR 0x22] @ ''@type'' @ [CHR 0x22] @ '': '' @ [CHR 0x22] @ ''http://www.w3.org/ns/ldp#Container'' @ [CHR 0x22] @ ''}''"

definition jsonld_pod :: env where
  "jsonld_pod = pod True ''application/ld+json'' [(''http://pod/c/'', jsonld_doc)]"

text \<open>The pod holding one turtle document, at \<^verbatim>\<open>http://pod/c/\<close>.\<close>

definition turtle_pod :: "bool \<Rightarrow> string \<Rightarrow> env" where
  "turtle_pod once doc = pod once ''text/turtle'' [(''http://pod/c/'', doc)]"

text \<open>
  What a read reports, for stating results on concrete inputs: the type of the resource,
  the number of its children when it has any, and the number of transport calls made;
  \<open>None\<close> when the read throws.
\<close>

definition classification :: "resource_response io \<Rightarrow> request list \<Rightarrow> (resource_type \<times> nat option \<times> nat) option" where
  "classification m lg =
     (case m lg of
        (Resolve r, lg1) \<Rightarrow>
          Some (rtype (resource r), map_option length (children r), length lg1 - length lg)
      | (Reject x, lg1) \<Rightarrow> None)"

text \<open>The descriptor \<^verbatim>\<open>parseResourceMetadata\<close> builds for a child.\<close>

definition child :: "string \<Rightarrow> resource_type \<Rightarrow> string option \<Rightarrow> resource" where
  "child u ty ct =
     \<lparr>uri = JStr u, rtype = ty, contentType = ct, modified = None, rsize = None, permissions = None\<rparr>"

text \<open>
  A pod with a container \<^verbatim>\<open>/c/\<close> holding \<^verbatim>\<open>a.txt\<close> and \<^verbatim>\<open>b.txt\<close>, where \<^verbatim>\<open>a.txt\<close> is itself a
  container holding \<^verbatim>\<open>aa.txt\<close>; and a pod with two containers that list each other.
\<close>

definition tree_root_doc :: string where
  "tree_root_doc =
     container_line ''http://pod/c/'' @ [CHR 0x0A] @
     container_line ''http://pod/c/a.txt'' @ [CHR 0x0A] @
     format_line ''http://pod/c/b.txt'' ''text/plain''"

definition tree_inner_doc :: string where
  "tree_inner_doc =
     container_line ''http://pod/c/a.txt'' @ [CHR 0x0A] @
     format_line ''http://pod/c/a.txt/aa.txt'' ''text/plain''"

definition tree_pod :: env where
  "tree_pod = pod True ''text/turtle''
     [(''http://pod/c/'', tree_root_doc), (''http://pod/c/a.txt'', tree_inner_doc)]"

definition cycle_doc :: string where
  "cycle_doc =
     container_line ''http://pod/a/'' @ [CHR 0x0A] @ container_line ''http://pod/b/''"

definition cycle_pod :: env where
  "cycle_pod = pod True ''text/turtle''
     [(''http://pod/a/'', cycle_doc), (''http://pod/b/'', cycle_doc)]"

text \<open>
  The same two containers, where \<^verbatim>\<open>/a/\<close> lists before the other container a child whose
  locator, \<^verbatim>\<open>httpx\<close>, is not a URL.
\<close>

definition guarded_doc :: string where
  "guarded_doc = format_line ''httpx'' ''text/plain'' @ [CHR 0x0A] @ cycle_doc"

definition guarded_pod :: env where
  "guarded_pod = pod True ''text/turtle''
     [(''http://pod/a/'', guarded_doc), (''http://pod/b/'', cycle_doc)]"

text \<open>
  A pod with the single container \<^verbatim>\<open>/c/\<close>, which is empty, behind a transport that does not
  send the fragment of a locator, as \<^verbatim>\<open>fetch\<close> does not: every spelling \<^verbatim>\<open>http://pod/c/#...\<close> is
  answered alike.
\<close>

definition fragment_pod :: env where
  "fragment_pod =
     \<lparr>podUrl = ''http://pod'', auth = None,
      fetchFn = (\<lambda>lg req.
        case url req of
          JStr s \<Rightarrow>
            if takeWhile (\<lambda>c. c \<noteq> CHR ''#'') s = ''http://pod/c/''
            then Resolve (pod_response True ''text/turtle'' (container_line ''http://pod/c/''))
            else Resolve not_found
        | _ \<Rightarrow> Resolve not_found),
      URL_pathname = demo_pathname,
      String_of = (\<lambda>v. ''[object]''),
      JSON_stringify = demo_stringify\<rparr>"

text \<open>Requests to run the dispatcher on.\<close>

definition search_request :: "string \<Rightarrow> string \<Rightarrow> bool \<Rightarrow> jsval" where
  "search_request u t r =
     JObj [(''action'', JStr ''search''),
           (''parameters'', JObj [(''container_uri'', JStr u), (''search_term'', JStr t),
                                  (''recursive'', JBool r)])]"

definition read_request :: "string \<Rightarrow> jsval" where
  "read_request u =
     JObj [(''action'', JStr ''read_resource''), (''parameters'', JObj [(''uri'', JStr u)])]"

text \<open>The dispatcher answers a request: some fuel is enough for a response to come back.\<close>

definition handle_returns :: "env \<Rightarrow> jsval \<Rightarrow> request list \<Rightarrow> bool" where
  "handle_returns e request lg = (\<exists>n r. handleRequest n e request lg = Some r)"

section \<open>Sequencing lemmas\<close>

lemma bind_ret: "bind (ret x) f = f x"
  by (simp add: bind_def ret_def)

lemma bind_throw: "bind (throw m) f = throw m"
  by (simp add: bind_def throw_def)

lemma bind_await:
  "bind (await r) f = (case r of Resolve x \<Rightarrow> f x | Reject m \<Rightarrow> throw m)"
  by (simp add: bind_def await_def throw_def split: outcome.splits)

lemma bind_assoc: "bind (bind m f) g = bind m (\<lambda>x. bind (f x) g)"
  by (auto simp: bind_def split: outcome.splits prod.splits)

lemma bind_fetch:
  "bind (fetch e req) f lg =
     (case fetchFn e lg req of
        Resolve r \<Rightarrow> f r (lg @ [req])
      | Reject m \<Rightarrow> (Reject m, lg @ [req]))"
  by (simp add: bind_def fetch_def split: outcome.splits)

lemma catch_apply:
  "catch m h lg =
     (case m lg of (Resolve x, lg') \<Rightarrow> (Resolve x, lg') | (Reject x, lg') \<Rightarrow> h x lg')"
  by (simp add: catch_def)

lemma ret_apply: "ret x lg = (Resolve x, lg)"
  by (simp add: ret_def)

lemma throw_apply: "throw m lg = (Reject m, lg)"
  by (simp add: throw_def)

lemmas io_simps = bind_assoc bind_ret bind_throw bind_await bind_fetch
  catch_apply ret_apply throw_apply

lemmas io_defs = bind_def catch_def ret_def throw_def await_def fetch_def

lemma rejects_simps [simp]: "rejects (Resolve v) = False" "rejects (Reject m) = True"
  by (simp_all add: rejects_def)

section \<open>The normalizer\<close>

lemma endsWith_slash: "endsWith b ''/'' \<longleftrightarrow> b \<noteq> [] \<and> last b = CHR ''/''"
  by (cases b rule: rev_cases) (auto simp: endsWith_def)

lemma startsWith_slash: "startsWith u ''/'' \<longleftrightarrow> (\<exists>r. u = CHR ''/'' # r)"
  by (cases u) (auto simp: startsWith_def)

lemma normalizeUrl_string: "\<exists>r. normalizeUrl e (JStr u) base = Resolve (JStr r)"
  by (simp add: normalizeUrl_def Let_def split: option.splits)

text \<open>
  Claim C8. An input that parses as an absolute URI is returned unchanged, whatever the
  base; any other input is joined to the base: the base with a trailing \<^verbatim>\<open>/\<close> ensured,
  followed by the input without its leading \<^verbatim>\<open>/\<close>, so that the result starts with the one
  and ends with the other.
\<close>

theorem normalizeUrl_absolute_or_joined:
  "(URL_pathname e (JStr u) \<noteq> None \<longrightarrow> normalizeUrl e (JStr u) base = Resolve (JStr u)) \<and>
   (URL_pathname e (JStr u) = None \<longrightarrow>
      normalizeUrl e (JStr u) base = Resolve (JStr (with_trailing_slash base @ strip_leading_slash u)) \<and>
      (\<exists>r. normalizeUrl e (JStr u) base = Resolve (JStr r) \<and>
           prefix (with_trailing_slash base) r \<and> suffix (strip_leading_slash u) r))"
proof -
  have j: "URL_pathname e (JStr u) = None \<Longrightarrow>
      normalizeUrl e (JStr u) base = Resolve (JStr (with_trailing_slash base @ strip_leading_slash u))"
    by (cases u)
       (auto simp: normalizeUrl_def endsWith_slash startsWith_slash with_trailing_slash_def
          strip_leading_slash_def Let_def)
  have a: "URL_pathname e (JStr u) \<noteq> None \<Longrightarrow> normalizeUrl e (JStr u) base = Resolve (JStr u)"
    by (auto simp: normalizeUrl_def)
  have p: "prefix (with_trailing_slash base) (with_trailing_slash base @ strip_leading_slash u)"
    by simp
  have s: "suffix (strip_leading_slash u) (with_trailing_slash base @ strip_leading_slash u)"
    by (rule suffixI) simp
  from j a p s show ?thesis by blast
qed

theorem normalizeUrl_absolute_or_joined_witness:
  "URL_pathname (pod False [] []) (JStr ''http://other/x'') \<noteq> None \<and>
   normalizeUrl (pod False [] []) (JStr ''http://other/x'') ''http://pod'' = Resolve (JStr ''http://other/x'') \<and>
   URL_pathname (pod False [] []) (JStr ''/notes/x'') = None \<and>
   with_trailing_slash ''http://pod'' = ''http://pod/'' \<and>
   strip_leading_slash ''/notes/x'' = ''notes/x'' \<and>
   normalizeUrl (pod False [] []) (JStr ''/notes/x'') ''http://pod'' = Resolve (JStr ''http://pod/notes/x'')"
proof -
  have a: "URL_pathname (pod False [] []) (JStr ''http://other/x'') \<noteq> None"
    by (simp add: pod_def demo_pathname_def Let_def)
  have r: "URL_pathname (pod False [] []) (JStr ''/notes/x'') = None"
    by (simp add: pod_def demo_pathname_def Let_def)
  have w: "with_trailing_slash ''http://pod'' = ''http://pod/''"
    by (simp add: with_trailing_slash_def)
  have s: "strip_leading_slash ''/notes/x'' = ''notes/x''"
    by (simp add: strip_leading_slash_def)
  from normalizeUrl_absolute_or_joined [of "pod False [] []" "''http://other/x''" "''http://pod''"]
       normalizeUrl_absolute_or_joined [of "pod False [] []" "''/notes/x''" "''http://pod''"]
       a r w s
  show ?thesis by simp
qed

section \<open>Reading a resource\<close>

lemma Accept_header:
  "map_of (getAuthHeaders e) ''Accept'' =
     Some (JStr ''application/ld+json, application/json, text/turtle'')"
  by (simp add: getAuthHeaders_def Let_def update_conv' split: option.splits)

lemma listContainerContents_log:
  "snd (listContainerContents e cu lg) = lg @ [get_request e cu]"
  by (simp add: listContainerContents_def get_request_def io_simps split: outcome.splits)

lemma readResource_normalize_fails:
  "normalizeUrl e u (podUrl e) = Reject m \<Longrightarrow> readResource e u inc lg = (Reject m, lg)"
  by (simp add: readResource_def)

lemma readResource_fetch_fails:
  assumes "normalizeUrl e u (podUrl e) = Resolve ru"
      and "fetchFn e lg (get_request e ru) = Reject m"
  shows "readResource e u inc lg =
           (Reject (''Error reading resource '' @ to_string e ru @ '': '' @ m), lg @ [get_request e ru])"
  using assms by (simp add: readResource_def get_request_def io_simps)

lemma readResource_not_ok:
  assumes "normalizeUrl e u (podUrl e) = Resolve ru"
      and "fetchFn e lg (get_request e ru) = Resolve resp" and "\<not> ok resp"
  shows "readResource e u inc lg =
           (Reject (''Error reading resource '' @ to_string e ru @ '': '' @
                    ''Failed to read resource: '' @ show_nat (status resp) @ '' '' @ statusText resp),
            lg @ [get_request e ru])"
  using assms by (simp add: readResource_def get_request_def io_simps)

text \<open>What a read does once its \<^verbatim>\<open>GET\<close> has been answered with a successful response.\<close>

lemma readResource_ok:
  assumes "normalizeUrl e u (podUrl e) = Resolve ru"
      and "fetchFn e lg (get_request e ru) = Resolve resp" and "ok resp"
  shows "readResource e u inc lg =
     (let ctype = (case get_header resp ''Content-Type'' of Some v \<Rightarrow> v | None \<Rightarrow> []);
          turtle = str_includes ctype ''text/turtle''
      in case (if turtle then isContainer resp [] else Resolve False) of
           Reject m \<Rightarrow>
             (Reject (''Error reading resource '' @ to_string e ru @ '': '' @ m), lg @ [get_request e ru])
         | Resolve isC \<Rightarrow>
             (case (if inc then decodeContent resp ctype (if turtle then [RText] else [])
                    else Resolve JUndefined) of
                Reject m \<Rightarrow>
                  (Reject (''Error reading resource '' @ to_string e ru @ '': '' @ m), lg @ [get_request e ru])
              | Resolve c \<Rightarrow>
                  (let res = \<lparr>uri = ru,
                               rtype = (if isC then Container else Resource),
                               contentType = Some ctype,
                               modified = Some (case get_header resp ''Last-Modified'' of Some v \<Rightarrow> v | None \<Rightarrow> []),
                               rsize = (case get_header resp ''Content-Length'' of
                                          None \<Rightarrow> None
                                        | Some l \<Rightarrow> if l = [] then None else Some (parseInt l)),
                               permissions = Some \<lparr>perm_read = True, perm_write = True,
                                                     perm_append = True, perm_control = False\<rparr>\<rparr>
                   in if isC
                      then (case listContainerContents e ru (lg @ [get_request e ru]) of
                              (Reject m, lg2) \<Rightarrow>
                                (Reject (''Error reading resource '' @ to_string e ru @ '': '' @ m), lg2)
                            | (Resolve cs, lg2) \<Rightarrow>
                                (Resolve \<lparr>resource = res, content = (if inc then Some c else None),
                                          children = Some cs\<rparr>, lg2))
                      else (Resolve \<lparr>resource = res, content = (if inc then Some c else None),
                                     children = None\<rparr>, lg @ [get_request e ru]))))"
proof -
  obtain lo lg2 where L: "listContainerContents e ru (lg @ [\<lparr>url = ru, http_method = ''GET'', headers = getAuthHeaders e, body = JUndefined\<rparr>]) = (lo, lg2)"
    by (cases "listContainerContents e ru (lg @ [\<lparr>url = ru, http_method = ''GET'', headers = getAuthHeaders e, body = JUndefined\<rparr>])")
  show ?thesis
    using assms L
    by (cases "isContainer resp []";
        cases "decodeContent resp (case get_header resp ''Content-Type'' of Some v \<Rightarrow> v | None \<Rightarrow> []) [RText]";
        cases "decodeContent resp (case get_header resp ''Content-Type'' of Some v \<Rightarrow> v | None \<Rightarrow> []) []";
        cases lo; cases inc)
       (simp_all add: readResource_def get_request_def Let_def getPermissions_def permissions_try_def io_defs)
qed

text \<open>
  Claim C10. When the \<^verbatim>\<open>Content-Type\<close> of the response does not contain \<^verbatim>\<open>text/turtle\<close>, the
  read issues exactly one \<^verbatim>\<open>GET\<close> and, if it succeeds, classifies the locator as a plain
  resource without children, whatever the body holds. The \<^verbatim>\<open>Accept\<close> header of that
  request names JSON-LD first, so a container the pod describes in JSON-LD is never
  classified as a container.
\<close>

theorem non_turtle_is_resource:
  assumes norm: "normalizeUrl e u (podUrl e) = Resolve resourceUrl"
      and resp: "fetchFn e lg (get_request e resourceUrl) = Resolve response"
      and ct: "\<not> str_includes (case get_header response ''Content-Type'' of Some v \<Rightarrow> v | None \<Rightarrow> []) ''text/turtle''"
  shows "snd (readResource e u includeContent lg) = lg @ [get_request e resourceUrl] \<and>
         http_method (get_request e resourceUrl) = ''GET'' \<and>
         map_of (headers (get_request e resourceUrl)) ''Accept'' =
           Some (JStr ''application/ld+json, application/json, text/turtle'') \<and>
         (\<forall>r. fst (readResource e u includeContent lg) = Resolve r \<longrightarrow>
                rtype (resource r) = Resource \<and> children r = None)"
proof (cases "ok response")
  case False
  from readResource_not_ok [OF norm resp False] show ?thesis
    by (simp add: get_request_def Accept_header)
next
  case True
  from readResource_ok [OF norm resp True, of includeContent] ct show ?thesis
    by (auto simp: get_request_def Accept_header Let_def split: outcome.splits)
qed

lemma pod_normalize_c:
  "normalizeUrl (pod once ct docs) (JStr ''http://pod/c/'') (podUrl (pod once ct docs)) =
     Resolve (JStr ''http://pod/c/'')"
  by (simp add: normalizeUrl_def pod_def demo_pathname_def Let_def)

theorem non_turtle_is_resource_witness:
  "normalizeUrl jsonld_pod (JStr ''http://pod/c/'') (podUrl jsonld_pod) = Resolve (JStr ''http://pod/c/'') \<and>
   fetchFn jsonld_pod [] (get_request jsonld_pod (JStr ''http://pod/c/'')) =
     Resolve (pod_response True ''application/ld+json'' jsonld_doc) \<and>
   get_header (pod_response True ''application/ld+json'' jsonld_doc) ''Content-Type'' = Some ''application/ld+json'' \<and>
   \<not> str_includes ''application/ld+json'' ''text/turtle'' \<and>
   str_includes jsonld_doc ldp_Container \<and>
   snd (readResource jsonld_pod (JStr ''http://pod/c/'') False []) =
     [get_request jsonld_pod (JStr ''http://pod/c/'')] \<and>
   (\<exists>r. fst (readResource jsonld_pod (JStr ''http://pod/c/'') False []) = Resolve r \<and>
        rtype (resource r) = Resource \<and> children r = None)"
proof -
  have n: "normalizeUrl jsonld_pod (JStr ''http://pod/c/'') (podUrl jsonld_pod) = Resolve (JStr ''http://pod/c/'')"
    by (simp add: jsonld_pod_def pod_normalize_c)
  have f: "fetchFn jsonld_pod [] (get_request jsonld_pod (JStr ''http://pod/c/'')) =
     Resolve (pod_response True ''application/ld+json'' jsonld_doc)"
    by (simp add: jsonld_pod_def pod_def get_request_def)
  have h: "get_header (pod_response True ''application/ld+json'' jsonld_doc) ''Content-Type'' = Some ''application/ld+json''"
    by (simp add: pod_response_def)
  have c: "\<not> str_includes (case get_header (pod_response True ''application/ld+json'' jsonld_doc) ''Content-Type'' of Some v \<Rightarrow> v | None \<Rightarrow> []) ''text/turtle''"
    unfolding h by code_simp
  have m: "str_includes jsonld_doc ldp_Container"
    by code_simp
  have k: "ok (pod_response True ''application/ld+json'' jsonld_doc)"
    by (simp add: pod_response_def)
  have x: "\<exists>r. fst (readResource jsonld_pod (JStr ''http://pod/c/'') False []) = Resolve r"
    using readResource_ok [OF n f k, of False] c by (simp add: Let_def)
  from non_turtle_is_resource [OF n f c, of False] n f h c m x show ?thesis
    by auto
qed

text \<open>A read only ever appends to the log of transport calls.\<close>

lemma readResource_log: "\<exists>new. snd (readResource e u inc lg) = lg @ new"
proof (cases "normalizeUrl e u (podUrl e)")
  case (Reject m)
  then show ?thesis by (simp add: readResource_normalize_fails)
next
  case (Resolve ru)
  show ?thesis
  proof (cases "fetchFn e lg (get_request e ru)")
    case (Reject m)
    with Resolve show ?thesis by (simp add: readResource_fetch_fails)
  next
    case resp: (Resolve resp)
    show ?thesis
    proof (cases "ok resp")
      case False
      with Resolve resp show ?thesis by (simp add: readResource_not_ok)
    next
      case True
      have "snd (listContainerContents e ru (lg @ [get_request e ru])) = lg @ [get_request e ru, get_request e ru]"
        by (simp add: listContainerContents_log)
      then show ?thesis
        by (auto simp: readResource_ok [OF Resolve resp True] Let_def
                 split: outcome.splits prod.splits)
    qed
  qed
qed

section \<open>Writing a resource\<close>

text \<open>
  Claim C6. The first transport call of a write is a \<^verbatim>\<open>PUT\<close> to the normalized locator.
  For content that is neither a string nor a blob its body is \<^verbatim>\<open>JSON.stringify(content)\<close> and
  its \<^verbatim>\<open>Content-Type\<close> is \<^verbatim>\<open>application/json\<close>, whatever type the caller declared; for string
  content the body is the content itself and the \<^verbatim>\<open>Content-Type\<close> the declared one.
\<close>

theorem writeResource_put_request:
  "\<exists>req rest.
     snd (writeResource e (JStr u) cont ctype lg) = lg @ req # rest \<and>
     http_method req = ''PUT'' \<and>
     normalizeUrl e (JStr u) (podUrl e) = Resolve (url req) \<and>
     ((\<forall>s. cont \<noteq> JStr s) \<and> (\<forall>b. cont \<noteq> JBlob b) \<longrightarrow>
        body req = JSON_stringify e cont \<and>
        map_of (headers req) ''Content-Type'' = Some (JStr ''application/json'')) \<and>
     (\<forall>s. cont = JStr s \<longrightarrow>
        body req = JStr s \<and> map_of (headers req) ''Content-Type'' = Some ctype)"
proof -
  obtain r where n: "normalizeUrl e (JStr u) (podUrl e) = Resolve (JStr r)"
    using normalizeUrl_string by blast
  define req where "req =
     \<lparr>url = JStr r, http_method = ''PUT'',
      headers = (case cont of
                   JStr s \<Rightarrow> AList.update ''Content-Type'' ctype (getAuthHeaders e)
                 | JBlob b \<Rightarrow> AList.update ''Content-Type'' ctype (getAuthHeaders e)
                 | _ \<Rightarrow> AList.update ''Content-Type'' (JStr ''application/json'')
                          (AList.update ''Content-Type'' ctype (getAuthHeaders e))),
      body = (case cont of JStr s \<Rightarrow> cont | JBlob b \<Rightarrow> cont | _ \<Rightarrow> JSON_stringify e cont)\<rparr>"
  obtain new where rd: "snd (readResource e (JStr r) True (lg @ [req])) = (lg @ [req]) @ new"
    using readResource_log by blast
  have w: "\<exists>rest. snd (writeResource e (JStr u) cont ctype lg) = lg @ req # rest"
    using n rd
    by (cases "fetchFn e lg req")
       (auto simp: writeResource_def io_defs Let_def req_def split: outcome.splits prod.splits)
  have b: "(\<forall>s. cont \<noteq> JStr s) \<and> (\<forall>b. cont \<noteq> JBlob b) \<longrightarrow>
        body req = JSON_stringify e cont \<and>
        map_of (headers req) ''Content-Type'' = Some (JStr ''application/json'')"
    by (cases cont) (simp_all add: req_def update_conv')
  have s: "\<forall>s. cont = JStr s \<longrightarrow>
        body req = JStr s \<and> map_of (headers req) ''Content-Type'' = Some ctype"
    by (simp add: req_def update_conv')
  from w b s n show ?thesis
    by (auto simp: req_def)
qed


theorem writeResource_put_request_witness:
  "(\<forall>s. JObj [] \<noteq> JStr s) \<and> (\<forall>b. JObj [] \<noteq> JBlob b) \<and>
   (\<exists>req rest.
      snd (writeResource (pod False ''text/plain'' []) (JStr ''/notes/n'') (JObj []) (JStr ''text/plain'') []) = req # rest \<and>
      http_method req = ''PUT'' \<and> url req = JStr ''http://pod/notes/n'' \<and> body req = JStr ''{}'' \<and>
      map_of (headers req) ''Content-Type'' = Some (JStr ''application/json'')) \<and>
   (\<exists>req rest.
      snd (writeResource (pod False ''text/plain'' []) (JStr ''/notes/n'') (JStr ''hello'') (JStr ''text/plain'') []) = req # rest \<and>
      http_method req = ''PUT'' \<and> url req = JStr ''http://pod/notes/n'' \<and> body req = JStr ''hello'' \<and>
      map_of (headers req) ''Content-Type'' = Some (JStr ''text/plain''))"
proof -
  have n: "normalizeUrl (pod False ''text/plain'' []) (JStr ''/notes/n'') (podUrl (pod False ''text/plain'' [])) =
             Resolve (JStr ''http://pod/notes/n'')"
    by (simp add: normalizeUrl_def pod_def demo_pathname_def endsWith_slash startsWith_slash)
  have j: "JSON_stringify (pod False ''text/plain'' []) (JObj []) = JStr ''{}''"
    by (simp add: pod_def)
  from writeResource_put_request [of "pod False ''text/plain'' []" "''/notes/n''" "JObj []" "JStr ''text/plain''" "[]"]
       writeResource_put_request [of "pod False ''text/plain'' []" "''/notes/n''" "JStr ''hello''" "JStr ''text/plain''" "[]"]
  show ?thesis
    unfolding n j by (simp only: append_Nil outcome.inject) auto
qed

section \<open>The dispatcher\<close>

lemma invalid_action_includes:
  "str_includes ''Invalid request: missing or invalid action'' ''Invalid request''"
  by code_simp

lemma invalid_parameters_includes:
  "str_includes ''Invalid request: missing or invalid parameters'' ''Invalid request''"
  by code_simp

lemma typeof_string: "typeof v = ''string'' \<longleftrightarrow> (\<exists>s. v = JStr s)"
  by (cases v) simp_all

lemma typeof_object:
  "typeof v = ''object'' \<longleftrightarrow> v = JNull \<or> (\<exists>x. v = JArr x) \<or> (\<exists>x. v = JObj x) \<or> (\<exists>x. v = JBlob x)"
  by (cases v) simp_all

lemma find_tool_None:
  "a \<notin> {''read_resource'', ''write_resource'', ''delete_resource'', ''list_container'',
            ''create_container'', ''search''} \<Longrightarrow>
   find (\<lambda>t. JStr (name t) = JStr a) (createTools e) = None"
  by (auto simp: createTools_def)

lemma getProp_property:
  "v \<noteq> JNull \<Longrightarrow> v \<noteq> JUndefined \<Longrightarrow> getProp v k = Resolve (property v k)"
  by (cases v) (simp_all add: property_def)

lemma null_message:
  "\<not> str_includes (''Cannot read properties of null (reading '' @ [CHR 0x27] @ ''action'' @ [CHR 0x27] @ '')'')
       ''Invalid request''"
  by code_simp

lemma null_request:
  "handleRequest n e JNull lg =
     Some (Resolve (Error (''Cannot read properties of null (reading '' @ [CHR 0x27] @ ''action'' @ [CHR 0x27] @ '')'')), lg)"
  by (simp add: handleRequest_def handle_try_def)

lemma array_parameters:
  "handleRequest (Suc 0) unreachable (JObj [(''action'', JStr ''search''), (''parameters'', JArr [])]) [] =
     Some (Resolve (Success (SearchResult [])), [])"
  by code_simp

text \<open>
  Claim C4 as stated fails on two kinds of request. For the request \<^verbatim>\<open>null\<close> (and likewise
  \<^verbatim>\<open>undefined\<close>) the action is missing, yet the error is the TypeError of reading
  \<^verbatim>\<open>request.action\<close>, whose message does not contain \<^verbatim>\<open>Invalid request\<close>. And the validation
  of the parameters is \<^verbatim>\<open>typeof request.parameters !== 'object'\<close>, which an array passes:
  the search request with the parameters \<^verbatim>\<open>[]\<close> is answered with success.
\<close>

theorem handleRequest_malformed_counterexample:
  "handleRequest (Suc 0) unreachable JNull [] =
     Some (Resolve (Error (''Cannot read properties of null (reading '' @ [CHR 0x27] @ ''action'' @ [CHR 0x27] @ '')'')), []) \<and>
   \<not> str_includes (''Cannot read properties of null (reading '' @ [CHR 0x27] @ ''action'' @ [CHR 0x27] @ '')'')
       ''Invalid request'' \<and>
   typeof (JArr []) = ''object'' \<and>
   handleRequest (Suc 0) unreachable (JObj [(''action'', JStr ''search''), (''parameters'', JArr [])]) [] =
     Some (Resolve (Success (SearchResult [])), [])"
  using null_message null_request [of "Suc 0" unreachable "[]"] array_parameters
  by simp

text \<open>
  Claim C4, as amended. For the request \<^verbatim>\<open>null\<close> or \<^verbatim>\<open>undefined\<close> the response is the error
  thrown by reading its \<^verbatim>\<open>action\<close>. For any other request whose \<^verbatim>\<open>action\<close> is missing, empty
  or not a string, or whose \<^verbatim>\<open>parameters\<close> are missing, \<^verbatim>\<open>null\<close> or not of type object, the
  response is an error whose message contains \<^verbatim>\<open>Invalid request\<close>; and for a request that
  passes this validation and names none of the six registered actions it is the error
  \<^verbatim>\<open>Unknown action: <name>\<close>. In all three cases the log of transport calls is returned as
  it was: nothing was called. The type is that of \<^verbatim>\<open>typeof\<close>: an array or a blob passes as
  a mapping does.
\<close>

theorem handleRequest_rejects_malformed:
  "(request = JNull \<or> request = JUndefined \<longrightarrow>
      (\<exists>m. getProp request ''action'' = Reject m \<and>
           handleRequest n e request lg = Some (Resolve (Error m), lg))) \<and>
   (request \<noteq> JNull \<and> request \<noteq> JUndefined \<and>
    (property request ''action'' = JUndefined \<or> property request ''action'' = JStr [] \<or>
     typeof (property request ''action'') \<noteq> ''string'' \<or>
     property request ''parameters'' = JUndefined \<or> property request ''parameters'' = JNull \<or>
     typeof (property request ''parameters'') \<noteq> ''object'') \<longrightarrow>
      (\<exists>m. handleRequest n e request lg = Some (Resolve (Error m), lg) \<and>
           str_includes m ''Invalid request'')) \<and>
   (\<forall>a. property request ''action'' = JStr a \<and> a \<noteq> [] \<and>
        typeof (property request ''parameters'') = ''object'' \<and> property request ''parameters'' \<noteq> JNull \<and>
        a \<notin> {''read_resource'', ''write_resource'', ''delete_resource'', ''list_container'',
                ''create_container'', ''search''} \<longrightarrow>
        handleRequest n e request lg = Some (Resolve (Error (''Unknown action: '' @ a)), lg))"
proof (intro conjI impI allI)
  assume "request = JNull \<or> request = JUndefined"
  then show "\<exists>m. getProp request ''action'' = Reject m \<and>
           handleRequest n e request lg = Some (Resolve (Error m), lg)"
    by (auto simp: handleRequest_def handle_try_def)
next
  let ?action = "property request ''action''"
  let ?parameters = "property request ''parameters''"
  assume bad: "request \<noteq> JNull \<and> request \<noteq> JUndefined \<and>
    (?action = JUndefined \<or> ?action = JStr [] \<or> typeof ?action \<noteq> ''string'' \<or>
     ?parameters = JUndefined \<or> ?parameters = JNull \<or> typeof ?parameters \<noteq> ''object'')"
  then have a: "getProp request ''action'' = Resolve ?action"
        and p: "getProp request ''parameters'' = Resolve ?parameters"
    by (simp_all add: getProp_property)
  show "\<exists>m. handleRequest n e request lg = Some (Resolve (Error m), lg) \<and> str_includes m ''Invalid request''"
  proof (cases "\<not> truthy ?action \<or> typeof ?action \<noteq> ''string''")
    case True
    then have "handleRequest n e request lg =
                 Some (Resolve (Error ''Invalid request: missing or invalid action''), lg)"
      using a by (simp add: handleRequest_def handle_try_def)
    then show ?thesis using invalid_action_includes by blast
  next
    case False
    then have "\<not> truthy ?parameters \<or> typeof ?parameters \<noteq> ''object''"
      using bad by (cases ?action) auto
    then have "handleRequest n e request lg =
                 Some (Resolve (Error ''Invalid request: missing or invalid parameters''), lg)"
      using a p False by (simp add: handleRequest_def handle_try_def)
    then show ?thesis using invalid_parameters_includes by blast
  qed
next
  fix s
  let ?parameters = "property request ''parameters''"
  assume u: "property request ''action'' = JStr s \<and> s \<noteq> [] \<and>
        typeof ?parameters = ''object'' \<and> ?parameters \<noteq> JNull \<and>
        s \<notin> {''read_resource'', ''write_resource'', ''delete_resource'', ''list_container'',
                ''create_container'', ''search''}"
  then have nn: "request \<noteq> JNull" "request \<noteq> JUndefined"
    by (auto simp: property_def)
  then have a: "getProp request ''action'' = Resolve (JStr s)"
        and p: "getProp request ''parameters'' = Resolve ?parameters"
    using u by (simp_all add: getProp_property)
  from u have t: "truthy ?parameters"
    by (cases ?parameters) simp_all
  from u have f: "find (\<lambda>t. JStr (name t) = JStr s) (createTools e) = None"
    by (intro find_tool_None) simp
  show "handleRequest n e request lg = Some (Resolve (Error (''Unknown action: '' @ s)), lg)"
    using a p u t f by (simp add: handleRequest_def handle_try_def to_string_def)
qed

theorem handleRequest_rejects_malformed_witness:
  "(\<exists>m. getProp JUndefined ''action'' = Reject m \<and>
        handleRequest 1 unreachable JUndefined [] = Some (Resolve (Error m), [])) \<and>
   (\<exists>m. handleRequest 1 unreachable (JObj []) [] = Some (Resolve (Error m), []) \<and>
        str_includes m ''Invalid request'') \<and>
   (\<exists>m. handleRequest 1 unreachable (JObj [(''action'', JStr ''x'')]) [] = Some (Resolve (Error m), []) \<and>
        str_includes m ''Invalid request'') \<and>
   (\<exists>m. handleRequest 1 unreachable (JObj [(''action'', JStr ''search''), (''parameters'', JStr ''p'')]) [] =
          Some (Resolve (Error m), []) \<and>
        str_includes m ''Invalid request'') \<and>
   handleRequest 1 unreachable (JObj [(''action'', JStr ''not_real''), (''parameters'', JObj [])]) [] =
     Some (Resolve (Error ''Unknown action: not_real''), [])"
proof -
  note T = handleRequest_rejects_malformed
  have 0: "\<exists>m. getProp JUndefined ''action'' = Reject m \<and>
        handleRequest 1 unreachable JUndefined [] = Some (Resolve (Error m), [])"
    using T [where request = JUndefined and n = 1 and e = unreachable and lg = "[]", THEN conjunct1]
    by simp
  have 1: "\<exists>m. handleRequest 1 unreachable (JObj []) [] = Some (Resolve (Error m), []) \<and>
        str_includes m ''Invalid request''"
    using T [where request = "JObj []" and n = 1 and e = unreachable and lg = "[]",
             THEN conjunct2, THEN conjunct1]
    by (simp add: property_def)
  have 2: "\<exists>m. handleRequest 1 unreachable (JObj [(''action'', JStr ''x'')]) [] = Some (Resolve (Error m), []) \<and>
        str_includes m ''Invalid request''"
    using T [where request = "JObj [(''action'', JStr ''x'')]" and n = 1 and e = unreachable and lg = "[]",
             THEN conjunct2, THEN conjunct1]
    by (simp add: property_def)
  have 3: "\<exists>m. handleRequest 1 unreachable (JObj [(''action'', JStr ''search''), (''parameters'', JStr ''p'')]) [] =
          Some (Resolve (Error m), []) \<and> str_includes m ''Invalid request''"
    using T [where request = "JObj [(''action'', JStr ''search''), (''parameters'', JStr ''p'')]"
               and n = 1 and e = unreachable and lg = "[]",
             THEN conjunct2, THEN conjunct1]
    by (simp add: property_def)
  have 4: "handleRequest 1 unreachable (JObj [(''action'', JStr ''not_real''), (''parameters'', JObj [])]) [] =
     Some (Resolve (Error ''Unknown action: not_real''), [])"
    using T [where request = "JObj [(''action'', JStr ''not_real''), (''parameters'', JObj [])]"
               and n = 1 and e = unreachable and lg = "[]",
             THEN conjunct2, THEN conjunct2]
    by (simp add: property_def)
  from 0 1 2 3 4 show ?thesis by (intro conjI)
qed

section \<open>Extracting the children of a container document\<close>

lemma split_nonempty: "split d s \<noteq> []"
  by (induction s) (auto split: list.splits)

lemma split_no_separator: "d \<notin> set xs \<Longrightarrow> split d xs = [xs]"
  by (induction xs) auto

lemma split_at_separator: "d \<notin> set xs \<Longrightarrow> split d (xs @ d # ys) = xs # split d ys"
  by (induction xs) auto

lemma takeWhile_until:
  "b \<notin> set t \<Longrightarrow> takeWhile (\<lambda>x. x \<noteq> b) (t @ b # r) = t"
  by (induction t) auto

lemma dropWhile_until:
  "b \<notin> set t \<Longrightarrow> dropWhile (\<lambda>x. x \<noteq> b) (t @ b # r) = b # r"
  by (induction t) auto

lemma match_between_first:
  assumes "a \<notin> set xs" "b \<notin> set t" "t \<noteq> []"
  shows "match_between a b (xs @ a # t @ b # r) = Some t"
  using assms
proof (induction xs)
  case Nil
  then show ?case by (simp add: takeWhile_until dropWhile_until)
next
  case (Cons x xs)
  then show ?case by auto
qed

lemma match_between_none: "a \<notin> set s \<Longrightarrow> match_between a b s = None"
  by (induction s) auto

lemma trim_id:
  assumes "s \<noteq> []" "\<not> is_space (hd s)" "\<not> is_space (last s)"
  shows "trim s = s"
proof -
  from assms have 1: "dropWhile is_space s = s"
    by (cases s) simp_all
  from assms have 2: "dropWhile is_space (rev s) = rev s"
    by (cases s rule: rev_cases) simp_all
  show ?thesis by (simp add: trim_def 1 2)
qed

lemma str_includes_mid: "str_includes (a @ t @ b) t"
  by (simp add: str_includes_def sublist_appendI)

lemma not_space: "\<not> is_space CHR ''<''" "\<not> is_space CHR ''.''"
  by (simp_all add: is_space_def)

lemma container_line_trim: "trim (container_line loc) = container_line loc"
  by (rule trim_id) (simp_all add: container_line_def not_space)

lemma format_line_trim: "trim (format_line c t) = format_line c t"
  by (rule trim_id) (simp_all add: format_line_def not_space)

lemma container_line_http: "str_includes (container_line loc) ''<http''"
proof -
  have "container_line loc = (''<'' @ loc @ ''> a '') @ ''<http'' @ ''://www.w3.org/ns/ldp#Container>.''"
    by (simp add: container_line_def ldp_Container_def)
  then show ?thesis by (simp only: str_includes_mid)
qed

lemma container_line_gt: "str_includes (container_line loc) ''>''"
proof -
  have "container_line loc = (''<'' @ loc) @ ''>'' @ ('' a <'' @ ldp_Container @ ''>.'')"
    by (simp add: container_line_def)
  then show ?thesis by (simp only: str_includes_mid)
qed

lemma container_line_marker: "str_includes (container_line loc) ldp_Container"
proof -
  have "container_line loc = (''<'' @ loc @ ''> a <'') @ ldp_Container @ ''>.''"
    by (simp add: container_line_def)
  then show ?thesis by (simp only: str_includes_mid)
qed

lemma container_line_match:
  assumes "loc \<noteq> []" "CHR ''>'' \<notin> set loc"
  shows "match_between CHR ''<'' CHR ''>'' (container_line loc) = Some loc"
proof -
  have "container_line loc = [] @ CHR ''<'' # loc @ CHR ''>'' # ('' a <'' @ ldp_Container @ ''>.'')"
    by (simp add: container_line_def)
  then show ?thesis using assms by (simp only: match_between_first [of _ "[]"] list.set empty_iff not_False_eq_True)
qed

lemma container_line_ends: "endsWith (container_line loc) ''.''"
proof -
  have "container_line loc = (''<'' @ loc @ ''> a <'' @ ldp_Container @ ''>'') @ ''.''"
    by (simp add: container_line_def)
  then show ?thesis unfolding endsWith_def by (metis suffixI)
qed

lemma parse_container_line:
  assumes "loc \<noteq> []" "CHR ''>'' \<notin> set loc"
  shows "\<exists>st'. parse_line (JStr loc) st (container_line loc) = st' \<and>
               currentUri st' = [] \<and> resources st' = resources st"
  using assms
  by (simp add: parse_line_def container_line_trim container_line_http container_line_gt
        container_line_marker container_line_match container_line_ends Let_def
        split: option.splits)

lemma format_line_http: "str_includes (format_line c t) ''<http''"
proof -
  have "format_line c t = (''<'' @ c @ ''> '') @ ''<http'' @ (''://purl.org/dc/terms/format> '' @ [CHR 0x22] @ t @ [CHR 0x22] @ ''.'')"
    by (simp add: format_line_def dc_format_def)
  then show ?thesis by (simp only: str_includes_mid)
qed

lemma format_line_gt: "str_includes (format_line c t) ''>''"
proof -
  have "format_line c t = (''<'' @ c) @ ''>'' @ ('' <'' @ dc_format @ ''> '' @ [CHR 0x22] @ t @ [CHR 0x22] @ ''.'')"
    by (simp add: format_line_def)
  then show ?thesis by (simp only: str_includes_mid)
qed

lemma format_line_marker: "str_includes (format_line c t) dc_format"
proof -
  have "format_line c t = (''<'' @ c @ ''> <'') @ dc_format @ (''> '' @ [CHR 0x22] @ t @ [CHR 0x22] @ ''.'')"
    by (simp add: format_line_def)
  then show ?thesis by (simp only: str_includes_mid)
qed

lemma format_line_match:
  assumes "c \<noteq> []" "CHR ''>'' \<notin> set c"
  shows "match_between CHR ''<'' CHR ''>'' (format_line c t) = Some c"
proof -
  have "format_line c t = [] @ CHR ''<'' # c @ CHR ''>'' # ('' <'' @ dc_format @ ''> '' @ [CHR 0x22] @ t @ [CHR 0x22] @ ''.'')"
    by (simp add: format_line_def)
  then show ?thesis using assms by (simp only: match_between_first [of _ "[]"] list.set empty_iff not_False_eq_True)
qed

lemma format_line_quoted:
  assumes "CHR 0x22 \<notin> set c" "t \<noteq> []" "CHR 0x22 \<notin> set t"
  shows "match_between (CHR 0x22) (CHR 0x22) (format_line c t) = Some t"
proof -
  have e: "format_line c t = (''<'' @ c @ ''> <'' @ dc_format @ ''> '') @ CHR 0x22 # t @ CHR 0x22 # ''.''"
    by (simp add: format_line_def)
  have n: "CHR 0x22 \<notin> set (''<'' @ c @ ''> <'' @ dc_format @ ''> '')"
    using assms by (simp add: dc_format_def)
  show ?thesis unfolding e using n assms(3,2) by (rule match_between_first)
qed

lemma format_line_ends: "endsWith (format_line c t) ''.''"
proof -
  have "format_line c t = (''<'' @ c @ ''> <'' @ dc_format @ ''> '' @ [CHR 0x22] @ t @ [CHR 0x22]) @ ''.''"
    by (simp add: format_line_def)
  then show ?thesis unfolding endsWith_def by (metis suffixI)
qed

lemma parse_format_line:
  assumes "line_safe c" "line_safe t" "JStr c \<noteq> containerUrl"
  shows "\<exists>ty. parse_line containerUrl st (format_line c t) =
           st\<lparr>currentUri := [], isContainerFlag := (ty = Container), contentTypeVar := t,
              resources := resources st @
                [\<lparr>uri = JStr c, rtype = ty, contentType = Some t,
                  modified = None, rsize = None, permissions = None\<rparr>]\<rparr>"
proof -
  from assms have c: "c \<noteq> []" "CHR ''>'' \<notin> set c" "CHR 0x22 \<notin> set c"
    and t: "t \<noteq> []" "CHR 0x22 \<notin> set t"
    by (simp_all add: line_safe_def)
  show ?thesis
  proof (cases "str_includes (format_line c t) ldp_Container")
    case True
    with assms(3) t(1) c(1) show ?thesis
      by (intro exI [of _ Container])
         (simp add: parse_line_def format_line_trim format_line_http format_line_gt
            format_line_marker format_line_match [OF c(1,2)] format_line_quoted [OF c(3) t]
            format_line_ends Let_def)
  next
    case False
    with assms(3) t(1) c(1) show ?thesis
      by (intro exI [of _ Resource])
         (simp add: parse_line_def format_line_trim format_line_http format_line_gt
            format_line_marker format_line_match [OF c(1,2)] format_line_quoted [OF c(3) t]
            format_line_ends Let_def)
  qed
qed

lemma newline_free:
  assumes "line_safe loc"
  shows "CHR 0x0A \<notin> set (container_line loc)"
  using assms by (simp add: container_line_def line_safe_def ldp_Container_def)

lemma newline_free_format:
  assumes "line_safe c" "line_safe t"
  shows "CHR 0x0A \<notin> set (format_line c t)"
  using assms by (simp add: format_line_def line_safe_def dc_format_def)

lemma split_flat_document:
  assumes "line_safe loc" "line_safe c1" "line_safe t1" "line_safe c2" "line_safe t2"
  shows "split (CHR 0x0A) (flat_document loc c1 t1 c2 t2) =
           [container_line loc, format_line c1 t1, format_line c2 t2]"
proof -
  have "split (CHR 0x0A) (flat_document loc c1 t1 c2 t2) =
          container_line loc # split (CHR 0x0A) (format_line c1 t1 @ CHR 0x0A # format_line c2 t2)"
    using newline_free [OF assms(1)] by (simp add: flat_document_def split_at_separator)
  also have "split (CHR 0x0A) (format_line c1 t1 @ CHR 0x0A # format_line c2 t2) =
          format_line c1 t1 # split (CHR 0x0A) (format_line c2 t2)"
    using newline_free_format [OF assms(2,3)] by (simp add: split_at_separator)
  also have "split (CHR 0x0A) (format_line c2 t2) = [format_line c2 t2]"
    using newline_free_format [OF assms(4,5)] by (simp add: split_no_separator)
  finally show ?thesis .
qed

lemma parse_flat_document:
  assumes s: "line_safe loc" "line_safe c1" "line_safe t1" "line_safe c2" "line_safe t2"
      and d: "c1 \<noteq> loc" "c2 \<noteq> loc"
  shows "\<exists>ty1 ty2. parseResourceMetadata (flat_document loc c1 t1 c2 t2) (JStr loc) =
           [\<lparr>uri = JStr c1, rtype = ty1, contentType = Some t1,
             modified = None, rsize = None, permissions = None\<rparr>,
            \<lparr>uri = JStr c2, rtype = ty2, contentType = Some t2,
             modified = None, rsize = None, permissions = None\<rparr>]"
proof -
  let ?st0 = "\<lparr>currentUri = [], isContainerFlag = False, contentTypeVar = [], resources = []\<rparr>"
  from s(1) have l: "loc \<noteq> []" "CHR ''>'' \<notin> set loc"
    by (simp_all add: line_safe_def)
  obtain st1 where 1: "parse_line (JStr loc) ?st0 (container_line loc) = st1"
    and r1: "resources st1 = []"
    using parse_container_line [OF l, of ?st0] by auto
  from d have n: "JStr c1 \<noteq> JStr loc" "JStr c2 \<noteq> JStr loc" by simp_all
  obtain ty1 where 2: "parse_line (JStr loc) st1 (format_line c1 t1) =
           st1\<lparr>currentUri := [], isContainerFlag := (ty1 = Container), contentTypeVar := t1,
              resources := resources st1 @
                [\<lparr>uri = JStr c1, rtype = ty1, contentType = Some t1,
                  modified = None, rsize = None, permissions = None\<rparr>]\<rparr>" (is "_ = ?st2")
    using parse_format_line [OF s(2,3) n(1), of st1] by blast
  obtain ty2 where 3: "parse_line (JStr loc) ?st2 (format_line c2 t2) =
           ?st2\<lparr>currentUri := [], isContainerFlag := (ty2 = Container), contentTypeVar := t2,
              resources := resources ?st2 @
                [\<lparr>uri = JStr c2, rtype = ty2, contentType = Some t2,
                  modified = None, rsize = None, permissions = None\<rparr>]\<rparr>"
    using parse_format_line [OF s(4,5) n(2), of ?st2] by blast
  have "parseResourceMetadata (flat_document loc c1 t1 c2 t2) (JStr loc) =
          resources (parse_line (JStr loc) (parse_line (JStr loc) (parse_line (JStr loc) ?st0
             (container_line loc)) (format_line c1 t1)) (format_line c2 t2))"
    by (simp add: parseResourceMetadata_def split_flat_document [OF s])
  also have "\<dots> = [\<lparr>uri = JStr c1, rtype = ty1, contentType = Some t1,
             modified = None, rsize = None, permissions = None\<rparr>,
            \<lparr>uri = JStr c2, rtype = ty2, contentType = Some t2,
             modified = None, rsize = None, permissions = None\<rparr>]"
    by (simp only: 1 2 3) (simp add: r1)
  finally show ?thesis by blast
qed

lemma flat_document_marker: "str_includes (flat_document loc c1 t1 c2 t2) ldp_Container"
proof -
  have "flat_document loc c1 t1 c2 t2 =
          (''<'' @ loc @ ''> a <'') @ ldp_Container @
          (''>.'' @ [CHR 0x0A] @ format_line c1 t1 @ [CHR 0x0A] @ format_line c2 t2)"
    by (simp add: flat_document_def container_line_def)
  then show ?thesis by (simp only: str_includes_mid)
qed

lemma listContainerContents_ok:
  assumes "fetchFn e lg (get_request e cu) = Resolve resp" "ok resp"
      and "text_reader resp [] = Resolve txt"
  shows "listContainerContents e cu lg = (Resolve (parseResourceMetadata txt cu), lg @ [get_request e cu])"
  using assms by (simp add: listContainerContents_def get_request_def io_simps)

text \<open>
  Claim C1, as amended. When both \<^verbatim>\<open>GET\<close>s of a read are answered successfully with a
  turtle body that has one statement on each line and every term a full IRI (the line
  typing the requested locator as \<^verbatim>\<open>http://www.w3.org/ns/ldp#Container\<close>, then a line
  \<^verbatim>\<open><child> <http://purl.org/dc/terms/format> "type".\<close> for each of two children), and the
  body is not asked for or can be decoded after the container check has read it, the
  result has type container and exactly two children, with the two locators and the two
  declared types.
\<close>

theorem flat_container_read:
  assumes s: "line_safe loc" "line_safe c1" "line_safe t1" "line_safe c2" "line_safe t2"
      and d: "c1 \<noteq> loc" "c2 \<noteq> loc"
      and norm: "normalizeUrl e u (podUrl e) = Resolve (JStr loc)"
      and r1: "fetchFn e lg (get_request e (JStr loc)) = Resolve resp1"
      and r2: "fetchFn e (lg @ [get_request e (JStr loc)]) (get_request e (JStr loc)) = Resolve resp2"
      and ok: "ok resp1" "ok resp2"
      and ct: "str_includes (case get_header resp1 ''Content-Type'' of Some v \<Rightarrow> v | None \<Rightarrow> []) ''text/turtle''"
      and b1: "text_reader resp1 [] = Resolve (flat_document loc c1 t1 c2 t2)"
      and b2: "text_reader resp2 [] = Resolve (flat_document loc c1 t1 c2 t2)"
      and inc: "includeContent \<longrightarrow>
                 (\<exists>c. decodeContent resp1 (case get_header resp1 ''Content-Type'' of Some v \<Rightarrow> v | None \<Rightarrow> []) [RText] = Resolve c)"
  shows "\<exists>r chs. readResource e u includeContent lg =
                    (Resolve r, lg @ [get_request e (JStr loc), get_request e (JStr loc)]) \<and>
                 rtype (resource r) = Container \<and> children r = Some chs \<and> length chs = 2 \<and>
                 map uri chs = [JStr c1, JStr c2] \<and> map contentType chs = [Some t1, Some t2]"
proof -
  obtain ty1 ty2 where p: "parseResourceMetadata (flat_document loc c1 t1 c2 t2) (JStr loc) =
           [\<lparr>uri = JStr c1, rtype = ty1, contentType = Some t1,
             modified = None, rsize = None, permissions = None\<rparr>,
            \<lparr>uri = JStr c2, rtype = ty2, contentType = Some t2,
             modified = None, rsize = None, permissions = None\<rparr>]"
    using parse_flat_document [OF s d] by blast
  have i: "isContainer resp1 [] = Resolve True"
    by (simp add: isContainer_def b1 flat_document_marker)
  have l: "listContainerContents e (JStr loc) (lg @ [get_request e (JStr loc)]) =
             (Resolve (parseResourceMetadata (flat_document loc c1 t1 c2 t2) (JStr loc)),
              (lg @ [get_request e (JStr loc)]) @ [get_request e (JStr loc)])"
    by (rule listContainerContents_ok [OF r2 ok(2) b2])
  show ?thesis
  proof (cases includeContent)
    case True
    with inc obtain c where c: "decodeContent resp1 (case get_header resp1 ''Content-Type'' of Some v \<Rightarrow> v | None \<Rightarrow> []) [RText] = Resolve c"
      by blast
    show ?thesis
      using True ct by (simp add: readResource_ok [OF norm r1 ok(1)] Let_def i c l p)
  next
    case False
    then show ?thesis
      using ct by (simp add: readResource_ok [OF norm r1 ok(1)] Let_def i l p)
  qed
qed

section \<open>Reads of the demonstration pod\<close>

lemma turtle_pod_normalize:
  "normalizeUrl (turtle_pod once doc) (JStr ''http://pod/c/'') (podUrl (turtle_pod once doc)) =
     Resolve (JStr ''http://pod/c/'')"
  by (simp add: turtle_pod_def pod_normalize_c)

lemma turtle_pod_fetch:
  "fetchFn (turtle_pod once doc) lg (get_request (turtle_pod once doc) (JStr ''http://pod/c/'')) =
     Resolve (pod_response once ''text/turtle'' doc)"
  by (simp add: turtle_pod_def pod_def get_request_def)

lemma turtle_is_turtle: "str_includes ''text/turtle'' ''text/turtle''"
  by code_simp

lemma turtle_is_text: "str_includes ''text/turtle'' ''text/''"
  by code_simp

lemma turtle_not_json:
  "\<not> str_includes ''text/turtle'' ''application/json''"
  "\<not> str_includes ''text/turtle'' ''application/ld+json''"
  by code_simp+

lemma pod_response_simps:
  "ok (pod_response once ct txt)"
  "get_header (pod_response once ct txt) ''Content-Type'' = Some ct"
  "text_reader (pod_response once ct txt) [] = Resolve txt"
  "text_reader (pod_response False ct txt) h = Resolve txt"
  "text_reader (pod_response True ct txt) [RText] = Reject ''Body is unusable''"
  by (simp_all add: pod_response_def)

lemma turtle_decode_again:
  "decodeContent (pod_response False ''text/turtle'' txt) ''text/turtle'' [RText] = Resolve (JStr txt)"
  "decodeContent (pod_response True ''text/turtle'' txt) ''text/turtle'' [RText] = Reject ''Body is unusable''"
  by (simp_all add: decodeContent_def turtle_not_json turtle_is_text pod_response_simps)

lemma turtle_pod_list:
  "listContainerContents (turtle_pod once doc) (JStr ''http://pod/c/'') lg =
     (Resolve (parseResourceMetadata doc (JStr ''http://pod/c/'')),
      lg @ [get_request (turtle_pod once doc) (JStr ''http://pod/c/'')])"
  by (rule listContainerContents_ok [OF turtle_pod_fetch]) (simp_all add: pod_response_simps)

lemma turtle_pod_read:
  "readResource (turtle_pod once doc) (JStr ''http://pod/c/'') inc [] =
     (case (if inc then decodeContent (pod_response once ''text/turtle'' doc) ''text/turtle'' [RText]
            else Resolve JUndefined) of
        Reject m \<Rightarrow>
          (Reject (''Error reading resource http://pod/c/: '' @ m),
           [get_request (turtle_pod once doc) (JStr ''http://pod/c/'')])
      | Resolve c \<Rightarrow>
          (let res = \<lparr>uri = JStr ''http://pod/c/'',
                       rtype = (if str_includes doc ldp_Container then Container else Resource),
                       contentType = Some ''text/turtle'', modified = Some [], rsize = None,
                       permissions = Some \<lparr>perm_read = True, perm_write = True,
                                             perm_append = True, perm_control = False\<rparr>\<rparr>
           in if str_includes doc ldp_Container
              then (Resolve \<lparr>resource = res, content = (if inc then Some c else None),
                              children = Some (parseResourceMetadata doc (JStr ''http://pod/c/''))\<rparr>,
                    [get_request (turtle_pod once doc) (JStr ''http://pod/c/''),
                     get_request (turtle_pod once doc) (JStr ''http://pod/c/'')])
              else (Resolve \<lparr>resource = res, content = (if inc then Some c else None),
                              children = None\<rparr>,
                    [get_request (turtle_pod once doc) (JStr ''http://pod/c/'')])))"
  by (simp add: readResource_ok [OF turtle_pod_normalize turtle_pod_fetch pod_response_simps(1)]
        pod_response_simps turtle_is_turtle isContainer_def turtle_pod_list Let_def to_string_def
        pod_response_def [where ctype = "''text/turtle''", THEN arg_cong [where f = "\<lambda>r. get_header r ''Last-Modified''"]]
        pod_response_def [where ctype = "''text/turtle''", THEN arg_cong [where f = "\<lambda>r. get_header r ''Content-Length''"]]
      split: outcome.splits)

lemma prefixed_doc_no_marker: "\<not> str_includes prefixed_doc ldp_Container"
  by code_simp

lemma nested_doc_marker: "str_includes nested_doc ldp_Container"
  by code_simp

lemma nested_doc_children: "length (parseResourceMetadata nested_doc (JStr ''http://pod/c/'')) = 3"
  by code_simp

text \<open>
  Claim C1 as stated fails on two container descriptions of the requested locator with
  two children of distinct formats. In Turtle's prefixed form (\<^verbatim>\<open>a ldp:Container\<close>,
  \<^verbatim>\<open>dc:format\<close>) the body never contains the full IRI the check looks for: the result is a
  plain resource without children, after one \<^verbatim>\<open>GET\<close>. With full IRIs and the usual
  \<^verbatim>\<open>ldp:contains\<close> statement continued on a second line, the result is a container with
  three children: the predicate IRI of the continuation line is taken for a subject.
\<close>

theorem container_read_counterexample:
  "classification (readResource (turtle_pod False prefixed_doc) (JStr ''http://pod/c/'') True) [] =
     Some (Resource, None, 1) \<and>
   classification (readResource (turtle_pod False nested_doc) (JStr ''http://pod/c/'') True) [] =
     Some (Container, Some 3, 2)"
  by (simp add: classification_def turtle_pod_read turtle_decode_again prefixed_doc_no_marker
        nested_doc_marker nested_doc_children)

lemma flat_doc_marker: "str_includes flat_doc ldp_Container"
  by code_simp

lemma flat_doc_children: "length (parseResourceMetadata flat_doc (JStr ''http://pod/c/'')) = 2"
  by code_simp

text \<open>
  Claim C2 fails on the code. Over a pod whose response bodies can be read once, the
  read of a turtle container with the body included throws: the container check has
  consumed \<^verbatim>\<open>response.text()\<close> and the decoding calls it again, before the children are
  fetched. The same read without the body, or over re-readable bodies, returns the
  container with its two children.
\<close>

theorem container_body_read_twice:
  "readResource (turtle_pod True flat_doc) (JStr ''http://pod/c/'') True [] =
     (Reject ''Error reading resource http://pod/c/: Body is unusable'',
      [get_request (turtle_pod True flat_doc) (JStr ''http://pod/c/'')]) \<and>
   classification (readResource (turtle_pod True flat_doc) (JStr ''http://pod/c/'') False) [] =
     Some (Container, Some 2, 2) \<and>
   classification (readResource (turtle_pod False flat_doc) (JStr ''http://pod/c/'') True) [] =
     Some (Container, Some 2, 2)"
  by (simp add: classification_def turtle_pod_read turtle_decode_again flat_doc_marker
        flat_doc_children)

lemma line_safe_demo:
  "line_safe ''http://pod/c/''" "line_safe ''http://pod/c/a.txt''" "line_safe ''http://pod/c/b.txt''"
  "line_safe ''text/plain''" "line_safe ''application/json''"
  by (simp_all add: line_safe_def)

theorem flat_container_read_witness:
  "line_safe ''http://pod/c/'' \<and> line_safe ''http://pod/c/a.txt'' \<and> line_safe ''text/plain'' \<and>
   line_safe ''http://pod/c/b.txt'' \<and> line_safe ''application/json'' \<and>
   text_reader (pod_response False ''text/turtle'' flat_doc) [] =
     Resolve (flat_document ''http://pod/c/'' ''http://pod/c/a.txt'' ''text/plain''
                ''http://pod/c/b.txt'' ''application/json'') \<and>
   (\<exists>r chs. readResource (turtle_pod False flat_doc) (JStr ''http://pod/c/'') True [] =
        (Resolve r, [get_request (turtle_pod False flat_doc) (JStr ''http://pod/c/''),
                     get_request (turtle_pod False flat_doc) (JStr ''http://pod/c/'')]) \<and>
      rtype (resource r) = Container \<and> children r = Some chs \<and> length chs = 2 \<and>
      map uri chs = [JStr ''http://pod/c/a.txt'', JStr ''http://pod/c/b.txt''] \<and>
      map contentType chs = [Some ''text/plain'', Some ''application/json''])"
proof -
  have b: "text_reader (pod_response False ''text/turtle'' flat_doc) [] =
     Resolve (flat_document ''http://pod/c/'' ''http://pod/c/a.txt'' ''text/plain''
                ''http://pod/c/b.txt'' ''application/json'')"
    by (simp add: pod_response_simps flat_doc_def)
  have ct: "str_includes (case get_header (pod_response False ''text/turtle'' flat_doc) ''Content-Type'' of
                           Some v \<Rightarrow> v | None \<Rightarrow> []) ''text/turtle''"
    by (simp add: pod_response_simps turtle_is_turtle)
  have inc: "True \<longrightarrow> (\<exists>c. decodeContent (pod_response False ''text/turtle'' flat_doc)
                (case get_header (pod_response False ''text/turtle'' flat_doc) ''Content-Type'' of
                   Some v \<Rightarrow> v | None \<Rightarrow> []) [RText] = Resolve c)"
    by (simp add: pod_response_simps turtle_decode_again)
  have d: "''http://pod/c/a.txt'' \<noteq> ''http://pod/c/''" "''http://pod/c/b.txt'' \<noteq> ''http://pod/c/''"
    by simp_all
  from flat_container_read [where lg = "[]", OF line_safe_demo(1,2,4,3,5) d turtle_pod_normalize
         turtle_pod_fetch turtle_pod_fetch pod_response_simps(1) pod_response_simps(1) ct b b inc]
       line_safe_demo b
  show ?thesis by simp
qed

lemma turtle_is_text_family:
  assumes "str_includes ct ''text/turtle''"
  shows "str_includes ct ''text/''"
proof -
  from assms obtain a b where "ct = a @ ''text/turtle'' @ b"
    by (auto simp: str_includes_def sublist_def)
  then have "ct = a @ ''text/'' @ (''turtle'' @ b)"
    by simp
  then show ?thesis by (simp only: str_includes_mid)
qed

text \<open>
  The same in general: whenever the text of a successful turtle response that is not
  also of a JSON type cannot be read a second time, a read that includes the body
  throws after its first \<^verbatim>\<open>GET\<close>.
\<close>

lemma turtle_read_with_body_throws:
  assumes norm: "normalizeUrl e u (podUrl e) = Resolve ru"
      and resp: "fetchFn e lg (get_request e ru) = Resolve resp" "ok resp"
      and ct: "get_header resp ''Content-Type'' = Some ct" "str_includes ct ''text/turtle''"
              "\<not> str_includes ct ''application/json''" "\<not> str_includes ct ''application/ld+json''"
      and first: "text_reader resp [] = Resolve txt"
      and again: "text_reader resp [RText] = Reject m"
  shows "readResource e u True lg =
           (Reject (''Error reading resource '' @ to_string e ru @ '': '' @ m), lg @ [get_request e ru])"
  by (simp add: readResource_ok [OF norm resp] ct first again isContainer_def decodeContent_def
        turtle_is_text_family [OF ct(2)] Let_def)

section \<open>The search\<close>

declare searchResources.simps [simp del] search_children.simps [simp del]

lemma search_children_Nil:
  "search_children n e t low r [] acc lg = Some (Resolve acc, lg)"
  by (simp add: search_children.simps)

lemma search_children_Cons:
  "search_children n e t low r (c # cs) acc lg =
     (case getFilenameFromUrl e (uri c) of
        Reject m \<Rightarrow> Some (Reject m, lg)
      | Resolve filename \<Rightarrow>
          if r \<and> rtype c = Container
          then (case searchResources n e (uri c) t r lg of
                  None \<Rightarrow> None
                | Some (hs, lg2) \<Rightarrow>
                    search_children n e t low r cs
                      ((if str_includes (toLowerCase filename) low
                        then acc @ [\<lparr>hit_resource = c, relevance = 8 / 10\<rparr>] else acc) @ hs) lg2)
          else search_children n e t low r cs
                 (if str_includes (toLowerCase filename) low
                  then acc @ [\<lparr>hit_resource = c, relevance = 8 / 10\<rparr>] else acc) lg)"
  by (simp add: search_children.simps Let_def split: outcome.splits)

lemma searchResources_Suc:
  "searchResources (Suc n) e u t r lg =
     (case readResource e u False lg of
        (Reject m, lg1) \<Rightarrow> Some ([], lg1)
      | (Resolve result, lg1) \<Rightarrow>
          (case children result of
             None \<Rightarrow> Some ([], lg1)
           | Some cs \<Rightarrow>
               if cs = [] then Some ([], lg1)
               else (case toLowerCase_any t of
                       Reject m \<Rightarrow> Some ([], lg1)
                     | Resolve low \<Rightarrow>
                         (case search_children n e t low r cs [] lg1 of
                            None \<Rightarrow> None
                          | Some (Reject m, lg2) \<Rightarrow> Some ([], lg2)
                          | Some (Resolve hs, lg2) \<Rightarrow> Some (hs, lg2)))))"
proof -
  obtain out lg1 where rd: "readResource e u False lg = (out, lg1)"
    by (cases "readResource e u False lg")
  show ?thesis
  proof (cases out)
    case (Reject m)
    with rd show ?thesis by (simp add: searchResources.simps)
  next
    case (Resolve result)
    show ?thesis
    proof (cases "children result")
      case None
      with rd Resolve show ?thesis by (simp add: searchResources.simps)
    next
      case (Some cs)
      with rd Resolve show ?thesis
        by (cases cs; cases "toLowerCase_any t") (simp_all add: searchResources.simps)
    qed
  qed
qed

text \<open>More fuel does not change a search that came back.\<close>

lemma search_children_step:
  assumes H: "\<And>u lg res. searchResources n e u t r lg = Some res \<Longrightarrow>
                searchResources (Suc n) e u t r lg = Some res"
  shows "search_children n e t low r cs acc lg = Some res \<Longrightarrow>
         search_children (Suc n) e t low r cs acc lg = Some res"
proof (induction cs arbitrary: acc lg)
  case Nil
  then show ?case by (simp add: search_children_Nil)
next
  case (Cons c cs)
  show ?case
  proof (cases "getFilenameFromUrl e (uri c)")
    case (Reject m)
    with Cons.prems show ?thesis by (simp add: search_children_Cons)
  next
    case (Resolve fn)
    show ?thesis
    proof (cases "r \<and> rtype c = Container")
      case True
      with Cons.prems Resolve obtain hs lg2
        where s: "searchResources n e (uri c) t r lg = Some (hs, lg2)"
        by (cases "searchResources n e (uri c) t r lg") (auto simp: search_children_Cons)
      from Cons.prems Resolve True s Cons.IH H [OF s] show ?thesis
        by (simp add: search_children_Cons)
    next
      case False
      with Cons.prems Resolve Cons.IH show ?thesis
        by (auto simp: search_children_Cons)
    qed
  qed
qed

lemma searchResources_step:
  "searchResources n e u t r lg = Some res \<Longrightarrow> searchResources (Suc n) e u t r lg = Some res"
proof (induction n arbitrary: u lg res)
  case 0
  then show ?case by (simp add: searchResources.simps)
next
  case (Suc n)
  have step: "\<And>low cs acc lg x. search_children n e t low r cs acc lg = Some x \<Longrightarrow>
                search_children (Suc n) e t low r cs acc lg = Some x"
    by (rule search_children_step [OF Suc.IH])
  obtain out lg1 where rd: "readResource e u False lg = (out, lg1)"
    by (cases "readResource e u False lg")
  show ?case
  proof (cases "\<exists>result cs low. out = Resolve result \<and> children result = Some cs \<and> cs \<noteq> [] \<and>
                  toLowerCase_any t = Resolve low")
    case False
    with Suc.prems rd show ?thesis
      by (auto simp: searchResources_Suc [of "Suc n"] searchResources_Suc [of n]
               split: outcome.splits option.splits if_splits)
  next
    case True
    then obtain result cs low where o: "out = Resolve result" "children result = Some cs" "cs \<noteq> []"
        "toLowerCase_any t = Resolve low"
      by blast
    from Suc.prems rd o obtain x where x: "search_children n e t low r cs [] lg1 = Some x"
      by (cases "search_children n e t low r cs [] lg1") (auto simp: searchResources_Suc [of n])
    from Suc.prems rd o x step [OF x] show ?thesis
      by (simp add: searchResources_Suc [of "Suc n"] searchResources_Suc [of n])
  qed
qed

lemma search_fuel_mono:
  "searchResources n e u t r lg = Some res \<Longrightarrow> searchResources (n + k) e u t r lg = Some res"
  by (induction k) (simp_all add: searchResources_step)

lemma search_children_fuel_mono:
  "search_children n e t low r cs acc lg = Some res \<Longrightarrow>
   search_children (n + k) e t low r cs acc lg = Some res"
  by (induction k) (simp_all add: search_children_step [OF searchResources_step])










section \<open>Termination of the recursive search\<close>

lemma search_children_returns:
  assumes "\<forall>ch \<in> set cs. rtype ch = Container \<longrightarrow>
             (\<forall>lg. \<exists>n res. searchResources n e (uri ch) t True lg = Some res)"
  shows "\<exists>n res. search_children n e t low True cs acc lg = Some res"
  using assms
proof (induction cs arbitrary: acc lg)
  case Nil
  show ?case by (simp add: search_children_Nil)
next
  case (Cons c cs)
  from Cons.prems have rest: "\<And>acc lg. \<exists>n res. search_children n e t low True cs acc lg = Some res"
    by (intro Cons.IH) simp
  show ?case
  proof (cases "getFilenameFromUrl e (uri c)")
    case (Reject m)
    then show ?thesis by (simp add: search_children_Cons)
  next
    case (Resolve fn)
    let ?acc1 = "if str_includes (toLowerCase fn) low
                 then acc @ [\<lparr>hit_resource = c, relevance = 8 / 10\<rparr>] else acc"
    show ?thesis
    proof (cases "rtype c = Container")
      case True
      with Cons.prems obtain n1 hs lg1 where 1: "searchResources n1 e (uri c) t True lg = Some (hs, lg1)"
        by fastforce
      obtain n2 res where 2: "search_children n2 e t low True cs (?acc1 @ hs) lg1 = Some res"
        using rest by blast
      from search_fuel_mono [OF 1, of n2] search_children_fuel_mono [OF 2, of n1]
      have "search_children (n1 + n2) e t low True (c # cs) acc lg = Some res"
        using Resolve True by (simp add: search_children_Cons add.commute)
      then show ?thesis by blast
    next
      case False
      obtain n2 res where "search_children n2 e t low True cs ?acc1 lg = Some res"
        using rest by blast
      then have "search_children n2 e t low True (c # cs) acc lg = Some res"
        using Resolve False by (simp add: search_children_Cons)
      then show ?thesis by blast
    qed
  qed
qed

text \<open>Reads of a pod: what it takes for a read to resolve, and what it then lists.\<close>

lemma pod_read_resolves:
  assumes "readResource (pod once ''text/turtle'' docs) p False lg = (Resolve r, lg1)"
  shows "\<exists>s doc. normalizeUrl (pod once ''text/turtle'' docs) p ''http://pod'' = Resolve (JStr s) \<and>
                 map_of docs s = Some doc \<and>
                 children r = (if str_includes doc ldp_Container
                               then Some (parseResourceMetadata doc (JStr s)) else None)"
proof (cases "normalizeUrl (pod once ''text/turtle'' docs) p (podUrl (pod once ''text/turtle'' docs))")
  case (Reject m)
  with assms show ?thesis by (simp add: readResource_normalize_fails)
next
  case (Resolve ru)
  let ?e = "pod once ''text/turtle'' docs"
  have base: "podUrl ?e = ''http://pod''" by (simp add: pod_def)
  show ?thesis
  proof (cases "\<exists>s doc. ru = JStr s \<and> map_of docs s = Some doc")
    case False
    then have f: "fetchFn ?e lg (get_request ?e ru) = Resolve not_found"
      by (auto simp: pod_def get_request_def split: jsval.splits option.splits)
    have "\<not> ok not_found" by (simp add: not_found_def)
    from readResource_not_ok [OF Resolve f this] assms show ?thesis by simp
  next
    case True
    then obtain s doc where s: "ru = JStr s" "map_of docs s = Some doc"
      by blast
    from Resolve s have n: "normalizeUrl ?e p (podUrl ?e) = Resolve (JStr s)"
      by simp
    from s have f: "\<And>lg. fetchFn ?e lg (get_request ?e (JStr s)) = Resolve (pod_response once ''text/turtle'' doc)"
      by (simp add: pod_def get_request_def)
    have l: "listContainerContents ?e (JStr s) (lg @ [get_request ?e (JStr s)]) =
               (Resolve (parseResourceMetadata doc (JStr s)),
                (lg @ [get_request ?e (JStr s)]) @ [get_request ?e (JStr s)])"
      by (rule listContainerContents_ok [OF f]) (simp_all add: pod_response_simps)
    from readResource_ok [OF n f pod_response_simps(1), where lg = lg and inc = False] assms
    have "children r = (if str_includes doc ldp_Container
                               then Some (parseResourceMetadata doc (JStr s)) else None)"
      by (auto simp: pod_response_simps turtle_is_turtle isContainer_def l Let_def split: if_splits)
    with n s base show ?thesis by simp
  qed
qed

lemma pod_read_listing:
  assumes "map_of docs s = Some doc" "demo_pathname (JStr s) = Some pn" "str_includes doc ldp_Container"
  shows "\<exists>r. readResource (pod once ''text/turtle'' docs) (JStr s) False lg =
               (Resolve r, lg @ [get_request (pod once ''text/turtle'' docs) (JStr s),
                                 get_request (pod once ''text/turtle'' docs) (JStr s)]) \<and>
             children r = Some (parseResourceMetadata doc (JStr s))"
proof -
  let ?e = "pod once ''text/turtle'' docs"
  have n: "normalizeUrl ?e (JStr s) (podUrl ?e) = Resolve (JStr s)"
    using assms(2) by (simp add: normalizeUrl_def pod_def)
  have f: "\<And>lg. fetchFn ?e lg (get_request ?e (JStr s)) = Resolve (pod_response once ''text/turtle'' doc)"
    using assms(1) by (simp add: pod_def get_request_def)
  have l: "listContainerContents ?e (JStr s) (lg @ [get_request ?e (JStr s)]) =
               (Resolve (parseResourceMetadata doc (JStr s)),
                (lg @ [get_request ?e (JStr s)]) @ [get_request ?e (JStr s)])"
    by (rule listContainerContents_ok [OF f]) (simp_all add: pod_response_simps)
  show ?thesis
    using assms(3)
    by (simp add: readResource_ok [OF n f pod_response_simps(1)] pod_response_simps
          turtle_is_turtle isContainer_def l Let_def)
qed

text \<open>Two containers that list each other: the recursive search of either never comes back.\<close>

lemma cycle_doc_facts:
  "str_includes cycle_doc ldp_Container"
  "parseResourceMetadata cycle_doc (JStr ''http://pod/a/'') = [child ''http://pod/b/'' Container None]"
  "parseResourceMetadata cycle_doc (JStr ''http://pod/b/'') = [child ''http://pod/a/'' Container None]"
  "demo_pathname (JStr ''http://pod/a/'') = Some ''/a/''"
  "demo_pathname (JStr ''http://pod/b/'') = Some ''/b/''"
  by code_simp+

lemma cycle_filenames:
  "getFilenameFromUrl cycle_pod (JStr ''http://pod/a/'') = Resolve []"
  "getFilenameFromUrl cycle_pod (JStr ''http://pod/b/'') = Resolve []"
  by code_simp+

lemma cycle_read:
  "\<exists>r. readResource cycle_pod (JStr ''http://pod/a/'') False lg =
          (Resolve r, lg @ [get_request cycle_pod (JStr ''http://pod/a/''),
                            get_request cycle_pod (JStr ''http://pod/a/'')]) \<and>
        children r = Some [child ''http://pod/b/'' Container None]"
  "\<exists>r. readResource cycle_pod (JStr ''http://pod/b/'') False lg =
          (Resolve r, lg @ [get_request cycle_pod (JStr ''http://pod/b/''),
                            get_request cycle_pod (JStr ''http://pod/b/'')]) \<and>
        children r = Some [child ''http://pod/a/'' Container None]"
  using pod_read_listing [of "[(''http://pod/a/'', cycle_doc), (''http://pod/b/'', cycle_doc)]"
          "''http://pod/a/''" cycle_doc "''/a/''" True lg]
        pod_read_listing [of "[(''http://pod/a/'', cycle_doc), (''http://pod/b/'', cycle_doc)]"
          "''http://pod/b/''" cycle_doc "''/b/''" True lg]
  by (simp_all add: cycle_pod_def cycle_doc_facts)

lemma cycle_contains:
  "(JStr ''http://pod/b/'', JStr ''http://pod/a/'') \<in> contains cycle_pod"
  "(JStr ''http://pod/a/'', JStr ''http://pod/b/'') \<in> contains cycle_pod"
proof -
  from cycle_read(1) [of "[]"] obtain r lg1
    where "readResource cycle_pod (JStr ''http://pod/a/'') False [] = (Resolve r, lg1)"
      and "children r = Some [child ''http://pod/b/'' Container None]"
    by blast
  then show "(JStr ''http://pod/b/'', JStr ''http://pod/a/'') \<in> contains cycle_pod"
    unfolding contains_def
    by (intro CollectI case_prodI exI [of _ "[]"] exI [of _ r] exI [of _ lg1]
          exI [of _ "[child ''http://pod/b/'' Container None]"]
          exI [of _ "child ''http://pod/b/'' Container None"])
       (simp add: child_def)
  from cycle_read(2) [of "[]"] obtain r lg1
    where "readResource cycle_pod (JStr ''http://pod/b/'') False [] = (Resolve r, lg1)"
      and "children r = Some [child ''http://pod/a/'' Container None]"
    by blast
  then show "(JStr ''http://pod/a/'', JStr ''http://pod/b/'') \<in> contains cycle_pod"
    unfolding contains_def
    by (intro CollectI case_prodI exI [of _ "[]"] exI [of _ r] exI [of _ lg1]
          exI [of _ "[child ''http://pod/a/'' Container None]"]
          exI [of _ "child ''http://pod/a/'' Container None"])
       (simp add: child_def)
qed

lemma cycle_search_diverges:
  "searchResources n cycle_pod (JStr ''http://pod/a/'') (JStr term) True lg = None \<and>
   searchResources n cycle_pod (JStr ''http://pod/b/'') (JStr term) True lg = None"
proof (induction n arbitrary: lg)
  case 0
  show ?case by (simp add: searchResources.simps)
next
  case (Suc n)
  obtain ra la where a: "readResource cycle_pod (JStr ''http://pod/a/'') False lg = (Resolve ra, la)"
      "children ra = Some [child ''http://pod/b/'' Container None]"
    using cycle_read(1) by blast
  obtain rb lb where b: "readResource cycle_pod (JStr ''http://pod/b/'') False lg = (Resolve rb, lb)"
      "children rb = Some [child ''http://pod/a/'' Container None]"
    using cycle_read(2) by blast
  have ca: "search_children n cycle_pod (JStr term) (toLowerCase term) True
              [child ''http://pod/b/'' Container None] [] la = None"
    using Suc.IH [of la] by (simp add: search_children_Cons child_def cycle_filenames)
  have cb: "search_children n cycle_pod (JStr term) (toLowerCase term) True
              [child ''http://pod/a/'' Container None] [] lb = None"
    using Suc.IH [of lb] by (simp add: search_children_Cons child_def cycle_filenames)
  show ?case
    by (simp add: searchResources_Suc a b ca cb)
qed

text \<open>The containment relation of the tree pod is finite and acyclic.\<close>

lemma tree_doc_facts:
  "str_includes tree_root_doc ldp_Container"
  "str_includes tree_inner_doc ldp_Container"
  "parseResourceMetadata tree_root_doc (JStr ''http://pod/c/'') =
     [child ''http://pod/c/a.txt'' Container None, child ''http://pod/c/b.txt'' Resource (Some ''text/plain'')]"
  "parseResourceMetadata tree_inner_doc (JStr ''http://pod/c/a.txt'') =
     [child ''http://pod/c/a.txt/aa.txt'' Resource (Some ''text/plain'')]"
  by code_simp+

lemma tree_normalize_a:
  "normalizeUrl tree_pod (JStr ''http://pod/c/a.txt'') ''http://pod'' = Resolve (JStr ''http://pod/c/a.txt'')"
  by code_simp

lemma tree_normalize_root:
  assumes "normalizeUrl tree_pod p ''http://pod'' = Resolve (JStr ''http://pod/c/'')"
  shows "p \<in> {JStr ''http://pod/c/'', JStr ''c/'', JStr ''/c/''}"
proof (cases p)
  case (JStr s)
  show ?thesis
  proof (cases "demo_pathname (JStr s)")
    case (Some pn)
    with assms JStr show ?thesis
      by (simp add: normalizeUrl_def tree_pod_def pod_def)
  next
    case None
    with assms JStr have "''http://pod/'' @ (if startsWith s ''/'' then drop 1 s else s) = ''http://pod/c/''"
      by (simp add: normalizeUrl_def tree_pod_def pod_def endsWith_slash Let_def)
    then have "(if startsWith s ''/'' then drop 1 s else s) = ''c/''"
      by simp
    with JStr show ?thesis
      by (auto simp: startsWith_slash split: if_splits)
  qed
qed (use assms in \<open>simp_all add: normalizeUrl_def tree_pod_def pod_def demo_pathname_def\<close>)

lemma tree_contains:
  assumes "(c, p) \<in> contains tree_pod"
  shows "c = JStr ''http://pod/c/a.txt'' \<and> p \<in> {JStr ''http://pod/c/'', JStr ''c/'', JStr ''/c/''}"
proof -
  from assms obtain lg r lg1 chs ch
    where rd: "readResource (pod True ''text/turtle''
                 [(''http://pod/c/'', tree_root_doc), (''http://pod/c/a.txt'', tree_inner_doc)]) p False lg =
                 (Resolve r, lg1)"
      and ch: "children r = Some chs" "ch \<in> set chs" "rtype ch = Container" "uri ch = c"
    by (auto simp: contains_def tree_pod_def)
  from pod_read_resolves [OF rd] obtain s doc
    where n: "normalizeUrl tree_pod p ''http://pod'' = Resolve (JStr s)"
      and m: "map_of [(''http://pod/c/'', tree_root_doc), (''http://pod/c/a.txt'', tree_inner_doc)] s = Some doc"
      and k: "children r = (if str_includes doc ldp_Container
                            then Some (parseResourceMetadata doc (JStr s)) else None)"
    by (auto simp: tree_pod_def)
  from m have "s = ''http://pod/c/'' \<and> doc = tree_root_doc \<or> s = ''http://pod/c/a.txt'' \<and> doc = tree_inner_doc"
    by (auto split: if_splits)
  then show ?thesis
  proof
    assume "s = ''http://pod/c/'' \<and> doc = tree_root_doc"
    with k ch n tree_normalize_root [of p] show ?thesis
      by (auto simp: tree_doc_facts child_def)
  next
    assume "s = ''http://pod/c/a.txt'' \<and> doc = tree_inner_doc"
    with k ch show ?thesis
      by (auto simp: tree_doc_facts child_def)
  qed
qed

lemma tree_finite_acyclic: "finite (contains tree_pod) \<and> acyclic (contains tree_pod)"
proof
  have "contains tree_pod \<subseteq> {JStr ''http://pod/c/a.txt''} \<times> {JStr ''http://pod/c/'', JStr ''c/'', JStr ''/c/''}"
    using tree_contains by auto
  then show "finite (contains tree_pod)"
    by (rule finite_subset) simp
  have "contains tree_pod \<subseteq> measure (\<lambda>x. if x = JStr ''http://pod/c/a.txt'' then 0 else 1)"
  proof
    fix x
    assume x: "x \<in> contains tree_pod"
    obtain c p where cp: "x = (c, p)" by (cases x)
    from tree_contains [of c p] x cp
    have "c = JStr ''http://pod/c/a.txt''" "p \<noteq> JStr ''http://pod/c/a.txt''"
      by auto
    with cp show "x \<in> measure (\<lambda>x. if x = JStr ''http://pod/c/a.txt'' then 0 else 1)"
      by simp
  qed
  then have "wf (contains tree_pod)"
    by (rule wf_subset [OF wf_measure])
  then show "acyclic (contains tree_pod)"
    by (rule wf_acyclic)
qed

text \<open>
  When the container graph of a locator is well-founded, the recursive search of it
  comes back: some fuel suffices, whatever the log and the term.
\<close>

lemma graph_search_returns:
  assumes "wf (container_graph e u)"
  shows "\<exists>n res. searchResources n e u t True lg = Some res"
proof -
  have "(p, u) \<in> (contains e)\<^sup>* \<longrightarrow> (\<forall>lg. \<exists>n res. searchResources n e p t True lg = Some res)" for p
    using assms
  proof (induction p rule: wf_induct_rule)
    case (less p)
    show ?case
    proof (intro impI allI)
      fix lg
      assume reach: "(p, u) \<in> (contains e)\<^sup>*"
      obtain out lg1 where rd: "readResource e p False lg = (out, lg1)"
        by (cases "readResource e p False lg")
      show "\<exists>n res. searchResources n e p t True lg = Some res"
      proof (cases "\<exists>result cs low. out = Resolve result \<and> children result = Some cs \<and> cs \<noteq> [] \<and>
                      toLowerCase_any t = Resolve low")
        case False
        with rd have "\<exists>res. searchResources (Suc 0) e p t True lg = Some res"
          by (auto simp: searchResources_Suc split: outcome.splits option.splits)
        then show ?thesis by blast
      next
        case True
        then obtain result cs low where o: "out = Resolve result" "children result = Some cs" "cs \<noteq> []"
            "toLowerCase_any t = Resolve low"
          by blast
        have "\<forall>ch \<in> set cs. rtype ch = Container \<longrightarrow>
                 (\<forall>lg. \<exists>n res. searchResources n e (uri ch) t True lg = Some res)"
        proof (intro ballI impI)
          fix ch
          assume "ch \<in> set cs" "rtype ch = Container"
          with rd o have c: "(uri ch, p) \<in> contains e"
            by (auto simp: contains_def)
          with reach have g: "(uri ch, p) \<in> container_graph e u"
            by (simp add: container_graph_def)
          from c reach have "(uri ch, u) \<in> (contains e)\<^sup>*"
            by (rule converse_rtrancl_into_rtrancl)
          with less.IH [OF g] show "\<forall>lg. \<exists>n res. searchResources n e (uri ch) t True lg = Some res"
            by blast
        qed
        then obtain n x where "search_children n e t low True cs [] lg1 = Some x"
          using search_children_returns by blast
        with rd o have "\<exists>res. searchResources (Suc n) e p t True lg = Some res"
          by (auto simp: searchResources_Suc split: outcome.splits prod.splits)
        then show ?thesis by blast
      qed
    qed
  qed
  then show ?thesis by blast
qed

text \<open>A search that walks into a trap never comes back.\<close>

lemma walks_into_diverges:
  assumes "\<forall>p \<in> S. \<forall>lg. searchResources n e p t True lg = None"
      and "walks_into e S cs"
  shows "search_children n e t low True cs acc lg = None"
  using assms(2)
proof (induction cs arbitrary: acc lg)
  case Nil
  then show ?case by simp
next
  case (Cons c cs)
  from Cons.prems obtain fn where fn: "getFilenameFromUrl e (uri c) = Resolve fn"
    by (cases "getFilenameFromUrl e (uri c)") auto
  show ?case
  proof (cases "rtype c = Container \<and> uri c \<in> S")
    case True
    with assms(1) have "searchResources n e (uri c) t True lg = None"
      by blast
    with True fn show ?thesis
      by (simp add: search_children_Cons)
  next
    case False
    with Cons.prems have w: "walks_into e S cs"
      by auto
    show ?thesis
      using fn Cons.IH [OF w]
      by (simp add: search_children_Cons split: option.splits)
  qed
qed

lemma trap_read:
  assumes "trap e S" "p \<in> S"
  shows "\<exists>r lg1 cs. readResource e p False lg = (Resolve r, lg1) \<and> children r = Some cs \<and>
                     walks_into e S cs"
proof -
  from assms have t: "case readResource e p False lg of
          (Resolve r, lg1) \<Rightarrow> (case children r of Some cs \<Rightarrow> walks_into e S cs | None \<Rightarrow> False)
        | (Reject m, lg1) \<Rightarrow> False"
    by (simp add: trap_def)
  obtain out lg1 where rd: "readResource e p False lg = (out, lg1)"
    by (cases "readResource e p False lg")
  with t show ?thesis
    by (cases out) (auto split: option.splits)
qed

lemma trap_diverges:
  assumes "trap e S"
  shows "\<forall>p \<in> S. \<forall>lg. searchResources n e p (JStr term) True lg = None"
proof (induction n)
  case 0
  show ?case by (simp add: searchResources.simps)
next
  case (Suc n)
  show ?case
  proof (intro ballI allI)
    fix p lg
    assume "p \<in> S"
    with assms obtain r lg1 cs where rd: "readResource e p False lg = (Resolve r, lg1)"
        "children r = Some cs" "walks_into e S cs"
      using trap_read by blast
    from rd(3) have ne: "cs \<noteq> []"
      by auto
    from walks_into_diverges [OF Suc rd(3)]
    have "search_children n e (JStr term) (toLowerCase term) True cs [] lg1 = None" .
    with rd ne show "searchResources (Suc n) e p (JStr term) True lg = None"
      by (simp add: searchResources_Suc)
  qed
qed

text \<open>A finite trap holds a cycle of the container graph of each of its locators.\<close>

lemma walks_into_child:
  "walks_into e S cs \<Longrightarrow> \<exists>c \<in> set cs. rtype c = Container \<and> uri c \<in> S"
  by (induction cs) auto

lemma trap_step:
  assumes "trap e S" "p \<in> S"
  shows "\<exists>c \<in> S. (c, p) \<in> contains e"
proof -
  from trap_read [OF assms, of "[]"] obtain r lg1 cs
    where rd: "readResource e p False [] = (Resolve r, lg1)" "children r = Some cs" "walks_into e S cs"
    by blast
  from walks_into_child [OF rd(3)] obtain c where c: "c \<in> set cs" "rtype c = Container" "uri c \<in> S"
    by blast
  with rd have "(uri c, p) \<in> contains e"
    unfolding contains_def by blast
  with c(3) show ?thesis
    by blast
qed

lemma trap_cyclic:
  assumes "trap e S" "u \<in> S" "finite S"
  shows "\<not> acyclic (container_graph e u)"
proof
  assume a: "acyclic (container_graph e u)"
  define R where "R = {p \<in> S. (p, u) \<in> (contains e)\<^sup>*}"
  define r where "r = container_graph e u \<inter> (R \<times> R)"
  have "finite R"
    using assms(3) by (simp add: R_def)
  then have "finite r"
    by (simp add: r_def)
  moreover have "acyclic r"
    using a by (rule acyclic_subset) (simp add: r_def)
  ultimately have "wf r"
    by (rule finite_acyclic_wf)
  moreover have "u \<in> R"
    using assms(2) by (simp add: R_def)
  ultimately obtain z where z: "z \<in> R" "\<And>y. (y, z) \<in> r \<Longrightarrow> y \<notin> R"
    by (rule wfE_min) blast
  from z(1) have zs: "z \<in> S" and zu: "(z, u) \<in> (contains e)\<^sup>*"
    by (simp_all add: R_def)
  from trap_step [OF assms(1) zs] obtain c where c: "c \<in> S" "(c, z) \<in> contains e"
    by blast
  from c(2) zu have "(c, u) \<in> (contains e)\<^sup>*"
    by (rule converse_rtrancl_into_rtrancl)
  with c(1) have cr: "c \<in> R"
    by (simp add: R_def)
  from c(2) zu have "(c, z) \<in> container_graph e u"
    by (simp add: container_graph_def)
  with cr z(1) have "(c, z) \<in> r"
    by (simp add: r_def)
  from z(2) [OF this] cr show False
    by blast
qed

lemma contains_intro:
  "readResource e p False lg = (Resolve r, lg1) \<Longrightarrow> children r = Some cs \<Longrightarrow> ch \<in> set cs \<Longrightarrow>
   rtype ch = Container \<Longrightarrow> (uri ch, p) \<in> contains e"
  unfolding contains_def by blast

lemma two_cycle:
  assumes "(b, a) \<in> contains e" "(a, b) \<in> contains e"
  shows "(b, a) \<in> container_graph e a \<and> (a, b) \<in> container_graph e a \<and>
         \<not> acyclic (container_graph e a)"
proof -
  from assms(1) have 1: "(b, a) \<in> container_graph e a"
    by (simp add: container_graph_def)
  from assms have 2: "(a, b) \<in> container_graph e a"
    by (simp add: container_graph_def)
  from 2 1 have "(a, a) \<in> (container_graph e a)\<^sup>+"
    by (rule trancl_into_trancl2 [OF _ r_into_trancl])
  then have "\<not> acyclic (container_graph e a)"
    by (auto simp: acyclic_def)
  with 1 2 show ?thesis by blast
qed

lemma graph_subset: "container_graph e u \<subseteq> contains e"
  by (auto simp: container_graph_def)

lemma tree_graph:
  "finite (container_graph tree_pod u) \<and> acyclic (container_graph tree_pod u)"
  using tree_finite_acyclic finite_subset [OF graph_subset] acyclic_subset [OF _ graph_subset]
  by blast

lemma cycle_trap: "trap cycle_pod {JStr ''http://pod/a/'', JStr ''http://pod/b/''}"
proof -
  have w: "walks_into cycle_pod {JStr ''http://pod/a/'', JStr ''http://pod/b/''}
             [child ''http://pod/b/'' Container None]"
          "walks_into cycle_pod {JStr ''http://pod/a/'', JStr ''http://pod/b/''}
             [child ''http://pod/a/'' Container None]"
    by (simp_all add: child_def cycle_filenames)
  show ?thesis
    unfolding trap_def
  proof (intro ballI allI)
    fix p lg
    assume "p \<in> {JStr ''http://pod/a/'', JStr ''http://pod/b/''}"
    then consider "p = JStr ''http://pod/a/''" | "p = JStr ''http://pod/b/''"
      by auto
    then show "case readResource cycle_pod p False lg of
          (Resolve r, lg1) \<Rightarrow>
            (case children r of
               Some cs \<Rightarrow> walks_into cycle_pod {JStr ''http://pod/a/'', JStr ''http://pod/b/''} cs
             | None \<Rightarrow> False)
        | (Reject m, lg1) \<Rightarrow> False"
    proof cases
      case 1
      from cycle_read(1) [of lg] obtain r lg1
        where "readResource cycle_pod (JStr ''http://pod/a/'') False lg = (Resolve r, lg1)"
              "children r = Some [child ''http://pod/b/'' Container None]"
        by blast
      with 1 w show ?thesis by simp
    next
      case 2
      from cycle_read(2) [of lg] obtain r lg1
        where "readResource cycle_pod (JStr ''http://pod/b/'') False lg = (Resolve r, lg1)"
              "children r = Some [child ''http://pod/a/'' Container None]"
        by blast
      with 2 w show ?thesis by simp
    qed
  qed
qed

lemma guarded_doc_facts:
  "str_includes guarded_doc ldp_Container"
  "parseResourceMetadata guarded_doc (JStr ''http://pod/a/'') =
     [child ''httpx'' Resource (Some ''text/plain''), child ''http://pod/b/'' Container None]"
  by code_simp+

lemma guarded_contains:
  "(JStr ''http://pod/b/'', JStr ''http://pod/a/'') \<in> contains guarded_pod"
  "(JStr ''http://pod/a/'', JStr ''http://pod/b/'') \<in> contains guarded_pod"
proof -
  let ?docs = "[(''http://pod/a/'', guarded_doc), (''http://pod/b/'', cycle_doc)]"
  from pod_read_listing [of ?docs "''http://pod/a/''" guarded_doc "''/a/''" True "[]"]
  obtain r lg1 where "readResource guarded_pod (JStr ''http://pod/a/'') False [] = (Resolve r, lg1)"
      "children r = Some [child ''httpx'' Resource (Some ''text/plain''), child ''http://pod/b/'' Container None]"
    by (auto simp: guarded_pod_def guarded_doc_facts cycle_doc_facts)
  from contains_intro [OF this, of "child ''http://pod/b/'' Container None"]
  show "(JStr ''http://pod/b/'', JStr ''http://pod/a/'') \<in> contains guarded_pod"
    by (simp add: child_def)
  from pod_read_listing [of ?docs "''http://pod/b/''" cycle_doc "''/b/''" True "[]"]
  obtain r lg1 where "readResource guarded_pod (JStr ''http://pod/b/'') False [] = (Resolve r, lg1)"
      "children r = Some [child ''http://pod/a/'' Container None]"
    by (auto simp: guarded_pod_def cycle_doc_facts)
  from contains_intro [OF this, of "child ''http://pod/a/'' Container None"]
  show "(JStr ''http://pod/a/'', JStr ''http://pod/b/'') \<in> contains guarded_pod"
    by (simp add: child_def)
qed

lemma guarded_search:
  "searchResources (Suc 0) guarded_pod (JStr ''http://pod/a/'') (JStr ''x'') True [] =
     Some ([], [get_request guarded_pod (JStr ''http://pod/a/''), get_request guarded_pod (JStr ''http://pod/a/'')])"
  by code_simp

lemma cycle_search_null:
  "searchResources (Suc 0) cycle_pod (JStr ''http://pod/a/'') JNull True [] =
     Some ([], [get_request cycle_pod (JStr ''http://pod/a/''), get_request cycle_pod (JStr ''http://pod/a/'')])"
  by code_simp

text \<open>
  The pod behind the transport that drops fragments: whatever the spelling a search
  starts from, its container graph has at most the one step to \<^verbatim>\<open>/c/\<close>.
\<close>

lemma single_container_no_format:
  "\<not> str_includes (container_line ''http://pod/c/'') dc_format"
  by code_simp

lemma parse_container_line_any:
  "resources (parse_line cu st (container_line ''http://pod/c/'')) =
     (if cu = JStr ''http://pod/c/'' then resources st
      else resources st @ [child ''http://pod/c/'' Container None])"
  by (simp add: parse_line_def container_line_trim container_line_http container_line_gt
        container_line_marker container_line_match container_line_ends single_container_no_format
        Let_def child_def)

lemma parse_single_container:
  "parseResourceMetadata (container_line ''http://pod/c/'') cu =
     (if cu = JStr ''http://pod/c/'' then [] else [child ''http://pod/c/'' Container None])"
proof -
  have "split (CHR 0x0A) (container_line ''http://pod/c/'') = [container_line ''http://pod/c/'']"
    by (rule split_no_separator) (simp add: container_line_def ldp_Container_def)
  then show ?thesis
    by (simp add: parseResourceMetadata_def parse_container_line_any)
qed

lemma fragment_read:
  assumes "readResource fragment_pod p False lg = (Resolve r, lg1)"
  shows "\<exists>s. normalizeUrl fragment_pod p ''http://pod'' = Resolve (JStr s) \<and>
             children r = Some (parseResourceMetadata (container_line ''http://pod/c/'') (JStr s))"
proof (cases "normalizeUrl fragment_pod p (podUrl fragment_pod)")
  case (Reject m)
  with assms show ?thesis by (simp add: readResource_normalize_fails)
next
  case (Resolve ru)
  let ?e = fragment_pod
  let ?doc = "container_line ''http://pod/c/''"
  have base: "podUrl ?e = ''http://pod''" by (simp add: fragment_pod_def)
  show ?thesis
  proof (cases "\<exists>s. ru = JStr s \<and> takeWhile (\<lambda>c. c \<noteq> CHR ''#'') s = ''http://pod/c/''")
    case False
    then have f: "fetchFn ?e lg (get_request ?e ru) = Resolve not_found"
      by (auto simp: fragment_pod_def get_request_def split: jsval.splits)
    have "\<not> ok not_found" by (simp add: not_found_def)
    from readResource_not_ok [OF Resolve f this] assms show ?thesis by simp
  next
    case True
    then obtain s where s: "ru = JStr s" "takeWhile (\<lambda>c. c \<noteq> CHR ''#'') s = ''http://pod/c/''"
      by blast
    from Resolve s have n: "normalizeUrl ?e p (podUrl ?e) = Resolve (JStr s)"
      by simp
    from s have f: "\<And>lg. fetchFn ?e lg (get_request ?e (JStr s)) = Resolve (pod_response True ''text/turtle'' ?doc)"
      by (simp add: fragment_pod_def get_request_def)
    have l: "listContainerContents ?e (JStr s) (lg @ [get_request ?e (JStr s)]) =
               (Resolve (parseResourceMetadata ?doc (JStr s)),
                (lg @ [get_request ?e (JStr s)]) @ [get_request ?e (JStr s)])"
      by (rule listContainerContents_ok [OF f]) (simp_all add: pod_response_simps)
    from readResource_ok [OF n f pod_response_simps(1), where lg = lg and inc = False] assms
    have "children r = Some (parseResourceMetadata ?doc (JStr s))"
      by (auto simp: pod_response_simps turtle_is_turtle isContainer_def l Let_def container_line_marker
               split: if_splits)
    with n base show ?thesis by simp
  qed
qed

lemma fragment_contains:
  assumes "(c, p) \<in> contains fragment_pod"
  shows "c = JStr ''http://pod/c/'' \<and> p \<noteq> JStr ''http://pod/c/''"
proof -
  from assms obtain lg r lg1 chs ch
    where rd: "readResource fragment_pod p False lg = (Resolve r, lg1)"
      and ch: "children r = Some chs" "ch \<in> set chs" "rtype ch = Container" "uri ch = c"
    by (auto simp: contains_def)
  from fragment_read [OF rd] obtain s
    where n: "normalizeUrl fragment_pod p ''http://pod'' = Resolve (JStr s)"
      and k: "children r = Some (parseResourceMetadata (container_line ''http://pod/c/'') (JStr s))"
    by blast
  from k ch have s: "s \<noteq> ''http://pod/c/''" and c: "c = JStr ''http://pod/c/''"
    by (auto simp: parse_single_container child_def split: if_splits)
  have "normalizeUrl fragment_pod (JStr ''http://pod/c/'') ''http://pod'' = Resolve (JStr ''http://pod/c/'')"
    by code_simp
  with n s have "p \<noteq> JStr ''http://pod/c/''"
    by auto
  with c show ?thesis by simp
qed

lemma fragment_graph:
  "container_graph fragment_pod u \<subseteq> {(JStr ''http://pod/c/'', u)}"
proof
  fix x
  assume x: "x \<in> container_graph fragment_pod u"
  obtain c p where cp: "x = (c, p)" by (cases x)
  with x have e: "(c, p) \<in> contains fragment_pod" and r: "(p, u) \<in> (contains fragment_pod)\<^sup>*"
    by (simp_all add: container_graph_def)
  from fragment_contains [OF e] have c: "c = JStr ''http://pod/c/''" and p: "p \<noteq> JStr ''http://pod/c/''"
    by simp_all
  from r have "p = u"
  proof (cases rule: converse_rtranclE)
    case base
    then show ?thesis by simp
  next
    case (step y)
    from fragment_contains [OF step(1)] p show ?thesis by simp
  qed
  with cp c show "x \<in> {(JStr ''http://pod/c/'', u)}"
    by simp
qed

lemma fragment_graph_finite_acyclic:
  "finite (container_graph fragment_pod u) \<and> acyclic (container_graph fragment_pod u)"
proof
  show "finite (container_graph fragment_pod u)"
    using fragment_graph by (rule finite_subset) simp
  show "acyclic (container_graph fragment_pod u)"
  proof (cases "u = JStr ''http://pod/c/''")
    case True
    have "container_graph fragment_pod u = {}"
    proof (rule ccontr)
      assume "container_graph fragment_pod u \<noteq> {}"
      then obtain c p where "(c, p) \<in> container_graph fragment_pod u"
        by auto
      with fragment_graph [of u] have "p = u" "(c, p) \<in> contains fragment_pod"
        by (auto simp: container_graph_def)
      with fragment_contains True show False by blast
    qed
    then show ?thesis by (simp add: wf_acyclic)
  next
    case False
    have "acyclic {(JStr ''http://pod/c/'', u)}"
      using False by (simp add: acyclic_insert wf_acyclic)
    then show ?thesis
      by (rule acyclic_subset) (rule fragment_graph)
  qed
qed

text \<open>
  Claim C9 as stated fails in its second half: a cycle in the container graph does not
  make the recursion unbounded when a failure is caught on the way. In the pod where
  \<^verbatim>\<open>/a/\<close> and \<^verbatim>\<open>/b/\<close> list each other and \<^verbatim>\<open>/a/\<close> lists first a child whose locator is not a
  URL, the recursive search of \<^verbatim>\<open>/a/\<close> for \<^verbatim>\<open>"x"\<close> returns after reading \<^verbatim>\<open>/a/\<close>: the loop throws
  at that child before it descends, and the search returns the empty sequence. So does
  the search of two containers that list each other when the term is \<^verbatim>\<open>null\<close>.
\<close>

theorem cyclic_search_returns_counterexample:
  "(JStr ''http://pod/b/'', JStr ''http://pod/a/'') \<in> container_graph guarded_pod (JStr ''http://pod/a/'') \<and>
   (JStr ''http://pod/a/'', JStr ''http://pod/b/'') \<in> container_graph guarded_pod (JStr ''http://pod/a/'') \<and>
   \<not> acyclic (container_graph guarded_pod (JStr ''http://pod/a/'')) \<and>
   searchResources (Suc 0) guarded_pod (JStr ''http://pod/a/'') (JStr ''x'') True [] =
     Some ([], [get_request guarded_pod (JStr ''http://pod/a/''), get_request guarded_pod (JStr ''http://pod/a/'')]) \<and>
   (JStr ''http://pod/b/'', JStr ''http://pod/a/'') \<in> container_graph cycle_pod (JStr ''http://pod/a/'') \<and>
   (JStr ''http://pod/a/'', JStr ''http://pod/b/'') \<in> container_graph cycle_pod (JStr ''http://pod/a/'') \<and>
   \<not> acyclic (container_graph cycle_pod (JStr ''http://pod/a/'')) \<and>
   searchResources (Suc 0) cycle_pod (JStr ''http://pod/a/'') JNull True [] =
     Some ([], [get_request cycle_pod (JStr ''http://pod/a/''), get_request cycle_pod (JStr ''http://pod/a/'')])"
  using two_cycle [OF guarded_contains] two_cycle [OF cycle_contains] guarded_search cycle_search_null
  by (intro conjI) simp_all

text \<open>
  Claim C9, as amended. With \<^verbatim>\<open>recursive\<close> set, the search of a locator returns when its
  container graph (what can be reached from it by listings) is well-founded, and so
  when it is finite and acyclic: some fuel is enough, whatever the term and the log. It
  never returns, whatever the fuel, when the term is a string and the locator lies in a
  trap: a set of locators whose every read succeeds and lists, after children with a
  file name only, a child container of the set again. A finite trap is a cycle of the
  container graph.
\<close>

theorem recursive_search_terminates_unless_cyclic:
  "(wf (container_graph e u) \<longrightarrow> (\<exists>n res. searchResources n e u t True lg = Some res)) \<and>
   (finite (container_graph e u) \<and> acyclic (container_graph e u) \<longrightarrow>
      (\<exists>n res. searchResources n e u t True lg = Some res)) \<and>
   (trap e S \<and> u \<in> S \<longrightarrow> (\<forall>n. searchResources n e u (JStr tm) True lg = None)) \<and>
   (trap e S \<and> u \<in> S \<and> finite S \<longrightarrow> \<not> acyclic (container_graph e u))"
  using graph_search_returns [of e u t lg] finite_acyclic_wf [of "container_graph e u"]
        trap_diverges [of e S _ tm] trap_cyclic [of e S u]
  by blast

theorem recursive_search_terminates_unless_cyclic_witness:
  "finite (container_graph tree_pod (JStr ''http://pod/c/'')) \<and>
   acyclic (container_graph tree_pod (JStr ''http://pod/c/'')) \<and>
   (\<exists>n res. searchResources n tree_pod (JStr ''http://pod/c/'') (JStr ''a'') True [] = Some res) \<and>
   wf (container_graph fragment_pod (JStr ''http://pod/c/#top'')) \<and>
   (\<exists>n res. searchResources n fragment_pod (JStr ''http://pod/c/#top'') (JStr ''a'') True [] = Some res) \<and>
   trap cycle_pod {JStr ''http://pod/a/'', JStr ''http://pod/b/''} \<and>
   (\<forall>n. searchResources n cycle_pod (JStr ''http://pod/a/'') (JStr ''x'') True [] = None) \<and>
   \<not> acyclic (container_graph cycle_pod (JStr ''http://pod/a/''))"
proof -
  note T = recursive_search_terminates_unless_cyclic
  have w: "wf (container_graph fragment_pod (JStr ''http://pod/c/#top''))"
    using fragment_graph_finite_acyclic [of "JStr ''http://pod/c/#top''"]
    by (intro finite_acyclic_wf) simp_all
  have 0: "\<exists>n res. searchResources n fragment_pod (JStr ''http://pod/c/#top'') (JStr ''a'') True [] = Some res"
    using T [where e = fragment_pod and u = "JStr ''http://pod/c/#top''" and t = "JStr ''a''" and lg = "[]",
             THEN conjunct1]
          w
    by blast
  have 1: "\<exists>n res. searchResources n tree_pod (JStr ''http://pod/c/'') (JStr ''a'') True [] = Some res"
    using T [where e = tree_pod and u = "JStr ''http://pod/c/''" and t = "JStr ''a''" and lg = "[]",
             THEN conjunct2, THEN conjunct1]
          tree_graph
    by blast
  have 2: "\<forall>n. searchResources n cycle_pod (JStr ''http://pod/a/'') (JStr ''x'') True [] = None"
    using T [where e = cycle_pod and u = "JStr ''http://pod/a/''" and lg = "[]" and tm = "''x''"
               and S = "{JStr ''http://pod/a/'', JStr ''http://pod/b/''}",
             THEN conjunct2, THEN conjunct2, THEN conjunct1]
          cycle_trap
    by simp
  have 3: "\<not> acyclic (container_graph cycle_pod (JStr ''http://pod/a/''))"
    using T [where e = cycle_pod and u = "JStr ''http://pod/a/''"
               and S = "{JStr ''http://pod/a/'', JStr ''http://pod/b/''}",
             THEN conjunct2, THEN conjunct2, THEN conjunct2]
          cycle_trap
    by simp
  from tree_graph [of "JStr ''http://pod/c/''"] 1 w 0 cycle_trap 2 3
  show ?thesis
    by (intro conjI) simp_all
qed

section \<open>The envelope of the dispatcher\<close>

lemma find_search_tool:
  "find (\<lambda>t. name t = ''search'') (createTools e) =
     Some \<lparr>name = ''search'', execute = execute_search e\<rparr>"
  by (simp add: createTools_def)

lemma handle_search_request:
  "handleRequest n e (search_request u t r) lg =
     (case searchResources n e (JStr u) (JStr t) r lg of
        None \<Rightarrow> None
      | Some (hs, lg1) \<Rightarrow> Some (Resolve (Success (SearchResult hs)), lg1))"
  by (simp add: handleRequest_def handle_try_def search_request_def find_search_tool
        execute_search_def split: option.splits)

text \<open>
  Claim C5 as stated fails: \<^verbatim>\<open>handle\<close> is not total. On the pod whose two containers list
  each other, the recursive search request never gets a response, whatever the fuel.
\<close>

theorem handleRequest_total_counterexample:
  "\<not> handle_returns cycle_pod (search_request ''http://pod/a/'' ''x'' True) []"
  using cycle_search_diverges [of _ "''x''" "[]"]
  by (simp add: handle_returns_def handle_search_request)

lemma search_children_flat:
  "\<exists>res. search_children n e t low False cs acc lg = Some res"
  by (induction cs arbitrary: acc lg) (simp_all add: search_children_Nil search_children_Cons split: outcome.splits)

lemma searchResources_flat:
  "\<exists>res. searchResources (Suc n) e u t False lg = Some res"
proof -
  obtain out lg1 where rd: "readResource e u False lg = (out, lg1)"
    by (cases "readResource e u False lg")
  show ?thesis
  proof (cases "\<exists>result cs low. out = Resolve result \<and> children result = Some cs \<and> cs \<noteq> [] \<and>
                  toLowerCase_any t = Resolve low")
    case False
    with rd show ?thesis
      by (auto simp: searchResources_Suc split: outcome.splits option.splits)
  next
    case True
    then obtain result cs low where o: "out = Resolve result" "children result = Some cs" "cs \<noteq> []"
        "toLowerCase_any t = Resolve low"
      by blast
    obtain x where "search_children n e t low False cs [] lg1 = Some x"
      using search_children_flat by blast
    with rd o show ?thesis
      by (auto simp: searchResources_Suc split: outcome.splits prod.splits)
  qed
qed

lemma find_Some_member: "find P xs = Some x \<Longrightarrow> x \<in> set xs \<and> P x"
  by (induction xs) (auto split: if_splits)

lemma execute_of_tool:
  assumes "find (\<lambda>t. JStr (name t) = action) (createTools e) = Some tf"
  shows "(action \<noteq> JStr ''search'' \<longrightarrow> execute tf k params lg \<noteq> None) \<and>
         (action = JStr ''search'' \<longrightarrow> execute tf = execute_search e)"
proof -
  from find_Some_member [OF assms] have m: "tf \<in> set (createTools e)" and n: "JStr (name tf) = action"
    by simp_all
  from m have "tf = \<lparr>name = ''read_resource'', execute = (\<lambda>n params lg. Some (execute_read e params lg))\<rparr> \<or>
      tf = \<lparr>name = ''write_resource'', execute = (\<lambda>n params lg. Some (execute_write e params lg))\<rparr> \<or>
      tf = \<lparr>name = ''delete_resource'', execute = (\<lambda>n params lg. Some (execute_delete e params lg))\<rparr> \<or>
      tf = \<lparr>name = ''list_container'', execute = (\<lambda>n params lg. Some (execute_list e params lg))\<rparr> \<or>
      tf = \<lparr>name = ''create_container'', execute = (\<lambda>n params lg. Some (execute_create e params lg))\<rparr> \<or>
      tf = \<lparr>name = ''search'', execute = execute_search e\<rparr>"
    by (simp add: createTools_def)
  with n [symmetric] show ?thesis
    by (elim disjE) simp_all
qed

text \<open>
  Claim C5, as amended. No exception escapes \<^verbatim>\<open>handle\<close>: what it returns is never a
  rejection. For a validated request with a registered action the response is the
  outcome of the matched executor in its envelope: success with the value when the
  executor succeeded, error with the message when it threw; a success response only
  ever comes from a matched executor that succeeded, and whatever is thrown in the
  \<^verbatim>\<open>try\<close> becomes an error response. \<^verbatim>\<open>handle\<close> returns for every request and transport
  behaviour but one: it can fail to return only for a search whose \<^verbatim>\<open>recursive\<close>
  parameter is set.
\<close>

theorem handleRequest_envelope:
  "handleRequest n e request lg \<noteq> Some (Reject m, lg1) \<and>
   (\<forall>action parameters tf.
      getProp request ''action'' = Resolve action \<and> truthy action \<and> typeof action = ''string'' \<and>
      getProp request ''parameters'' = Resolve parameters \<and> truthy parameters \<and>
      typeof parameters = ''object'' \<and>
      find (\<lambda>t. JStr (name t) = action) (createTools e) = Some tf \<longrightarrow>
      handleRequest n e request lg =
        (case execute tf n parameters lg of
           None \<Rightarrow> None
         | Some (Resolve v, lg2) \<Rightarrow> Some (Resolve (Success v), lg2)
         | Some (Reject x, lg2) \<Rightarrow> Some (Resolve (Error x), lg2))) \<and>
   ((\<forall>v. handleRequest n e request lg \<noteq> Some (Resolve (Success v), lg1)) \<or>
    (\<exists>action parameters tf.
      getProp request ''action'' = Resolve action \<and> getProp request ''parameters'' = Resolve parameters \<and>
      find (\<lambda>t. JStr (name t) = action) (createTools e) = Some tf \<and>
      (\<exists>v. execute tf n parameters lg = Some (Resolve v, lg1)))) \<and>
   (handleRequest (Suc n) e request lg = None \<longrightarrow>
      getProp request ''action'' = Resolve (JStr ''search'') \<and>
      (\<exists>parameters r. getProp request ''parameters'' = Resolve parameters \<and>
         getProp parameters ''recursive'' = Resolve r \<and> truthy r)) \<and>
   (\<forall>x. handle_try n e request lg = Some (Reject x, lg1) \<longrightarrow>
      handleRequest n e request lg = Some (Resolve (Error x), lg1))"
proof -
  have wrap: "\<And>v l. handleRequest n e request lg = Some (Resolve (Success v), l) \<Longrightarrow>
                handle_try n e request lg = Some (Resolve v, l)"
    by (auto simp: handleRequest_def split: option.splits prod.splits outcome.splits)
  have matched: "\<And>k r. handle_try k e request lg = r \<Longrightarrow> (\<forall>x. r \<noteq> Some (Reject x, lg)) \<Longrightarrow>
      \<exists>action parameters tf.
        getProp request ''action'' = Resolve action \<and> getProp request ''parameters'' = Resolve parameters \<and>
        find (\<lambda>t. JStr (name t) = action) (createTools e) = Some tf \<and>
        execute tf k parameters lg = r"
    by (auto simp: handle_try_def split: outcome.splits if_splits option.splits)
  have 1: "handleRequest n e request lg \<noteq> Some (Reject m, lg1)"
    by (auto simp: handleRequest_def split: option.splits prod.splits outcome.splits)
  have 2: "\<forall>action parameters tf.
      getProp request ''action'' = Resolve action \<and> truthy action \<and> typeof action = ''string'' \<and>
      getProp request ''parameters'' = Resolve parameters \<and> truthy parameters \<and>
      typeof parameters = ''object'' \<and>
      find (\<lambda>t. JStr (name t) = action) (createTools e) = Some tf \<longrightarrow>
      handleRequest n e request lg =
        (case execute tf n parameters lg of
           None \<Rightarrow> None
         | Some (Resolve v, lg2) \<Rightarrow> Some (Resolve (Success v), lg2)
         | Some (Reject x, lg2) \<Rightarrow> Some (Resolve (Error x), lg2))"
    by (simp add: handleRequest_def handle_try_def)
  have 3: "(\<forall>v. handleRequest n e request lg \<noteq> Some (Resolve (Success v), lg1)) \<or>
    (\<exists>action parameters tf.
      getProp request ''action'' = Resolve action \<and> getProp request ''parameters'' = Resolve parameters \<and>
      find (\<lambda>t. JStr (name t) = action) (createTools e) = Some tf \<and>
      (\<exists>v. execute tf n parameters lg = Some (Resolve v, lg1)))"
  proof (cases "\<exists>v. handleRequest n e request lg = Some (Resolve (Success v), lg1)")
    case False
    then show ?thesis by blast
  next
    case True
    then obtain v where "handle_try n e request lg = Some (Resolve v, lg1)"
      using wrap by blast
    from matched [OF this] show ?thesis by auto
  qed
  have 4: "handleRequest (Suc n) e request lg = None \<longrightarrow>
      getProp request ''action'' = Resolve (JStr ''search'') \<and>
      (\<exists>parameters r. getProp request ''parameters'' = Resolve parameters \<and>
         getProp parameters ''recursive'' = Resolve r \<and> truthy r)"
  proof
    assume "handleRequest (Suc n) e request lg = None"
    then have "handle_try (Suc n) e request lg = None"
      by (auto simp: handleRequest_def split: option.splits prod.splits outcome.splits)
    from matched [OF this] obtain action parameters tf
      where a: "getProp request ''action'' = Resolve action"
        and p: "getProp request ''parameters'' = Resolve parameters"
        and f: "find (\<lambda>t. JStr (name t) = action) (createTools e) = Some tf"
        and x: "execute tf (Suc n) parameters lg = None"
      by auto
    from execute_of_tool [OF f, of "Suc n" parameters lg] x
    have s: "action = JStr ''search''" "execute tf = execute_search e"
      by auto
    from x s obtain u t r where r: "getProp parameters ''recursive'' = Resolve r"
        and n: "searchResources (Suc n) e u t (truthy r) lg = None"
      by (auto simp: execute_search_def split: outcome.splits option.splits)
    from n searchResources_flat [of n e u t lg] have "truthy r"
      by (cases "truthy r") auto
    with a p s r
    show "getProp request ''action'' = Resolve (JStr ''search'') \<and>
        (\<exists>parameters r. getProp request ''parameters'' = Resolve parameters \<and>
           getProp parameters ''recursive'' = Resolve r \<and> truthy r)"
      by auto
  qed
  have 5: "\<forall>x. handle_try n e request lg = Some (Reject x, lg1) \<longrightarrow>
      handleRequest n e request lg = Some (Resolve (Error x), lg1)"
    by (simp add: handleRequest_def)
  from 1 2 3 4 5 show ?thesis by (intro conjI)
qed

lemma find_read_tool:
  "find (\<lambda>t. JStr (name t) = JStr ''read_resource'') (createTools e) =
     Some \<lparr>name = ''read_resource'', execute = (\<lambda>n params lg. Some (execute_read e params lg))\<rparr>"
  by (simp add: createTools_def)

lemma execute_read_uri:
  "execute_read e (JObj [(''uri'', JStr u)]) lg =
     (case readResource e (JStr u) True lg of
        (Resolve r, lg1) \<Rightarrow> (Resolve (ReadResult r), lg1)
      | (Reject m, lg1) \<Rightarrow> (Reject m, lg1))"
  by (simp add: execute_read_def map_io_def io_defs split: prod.splits outcome.splits)

lemma unreachable_read:
  "readResource unreachable (JStr ''http://pod/c/'') inc [] =
     (Reject ''Error reading resource http://pod/c/: Network error'',
      [get_request unreachable (JStr ''http://pod/c/'')])"
proof -
  have n: "normalizeUrl unreachable (JStr ''http://pod/c/'') (podUrl unreachable) = Resolve (JStr ''http://pod/c/'')"
    by code_simp
  have f: "fetchFn unreachable [] (get_request unreachable (JStr ''http://pod/c/'')) = Reject ''Network error''"
    by (simp add: unreachable_def)
  from readResource_fetch_fails [OF n f] show ?thesis
    by (simp add: to_string_def)
qed

theorem handleRequest_envelope_witness:
  "handleRequest 0 unreachable (read_request ''http://pod/c/'') [] =
     Some (Resolve (Error ''Error reading resource http://pod/c/: Network error''),
           [get_request unreachable (JStr ''http://pod/c/'')]) \<and>
   (\<exists>r. handleRequest 0 (turtle_pod False flat_doc) (read_request ''http://pod/c/'') [] =
     Some (Resolve (Success (ReadResult r)),
           [get_request (turtle_pod False flat_doc) (JStr ''http://pod/c/''),
            get_request (turtle_pod False flat_doc) (JStr ''http://pod/c/'')])) \<and>
   handleRequest (Suc 0) cycle_pod (search_request ''http://pod/a/'' ''x'' True) [] = None \<and>
   getProp (search_request ''http://pod/a/'' ''x'' True) ''action'' = Resolve (JStr ''search'') \<and>
   (\<exists>parameters r. getProp (search_request ''http://pod/a/'' ''x'' True) ''parameters'' = Resolve parameters \<and>
      getProp parameters ''recursive'' = Resolve r \<and> truthy r)"
proof -
  let ?params = "JObj [(''uri'', JStr ''http://pod/c/'')]"
  let ?tool = "\<lambda>e. \<lparr>name = ''read_resource'', execute = (\<lambda>n params lg. Some (execute_read e params lg))\<rparr>"
  have v: "getProp (read_request ''http://pod/c/'') ''action'' = Resolve (JStr ''read_resource'') \<and>
           truthy (JStr ''read_resource'') \<and> typeof (JStr ''read_resource'') = ''string'' \<and>
           getProp (read_request ''http://pod/c/'') ''parameters'' = Resolve ?params \<and>
           truthy ?params \<and> typeof ?params = ''object''"
    by (simp add: read_request_def)
  have x1: "execute (?tool unreachable) 0 ?params [] =
              Some (Reject ''Error reading resource http://pod/c/: Network error'',
                    [get_request unreachable (JStr ''http://pod/c/'')])"
    by (simp add: execute_read_uri unreachable_read)
  have x2: "\<exists>r. execute (?tool (turtle_pod False flat_doc)) 0 ?params [] =
              Some (Resolve (ReadResult r),
                    [get_request (turtle_pod False flat_doc) (JStr ''http://pod/c/''),
                     get_request (turtle_pod False flat_doc) (JStr ''http://pod/c/'')])"
    by (simp add: execute_read_uri turtle_pod_read turtle_decode_again flat_doc_marker Let_def)
  have c: "handleRequest (Suc 0) cycle_pod (search_request ''http://pod/a/'' ''x'' True) [] = None"
    using cycle_search_diverges [of "Suc 0" "''x''" "[]"] by (simp add: handle_search_request)
  from handleRequest_envelope [of 0 unreachable "read_request ''http://pod/c/''" "[]"]
  have 1: "handleRequest 0 unreachable (read_request ''http://pod/c/'') [] =
        (case execute (?tool unreachable) 0 ?params [] of
           None \<Rightarrow> None
         | Some (Resolve v, lg2) \<Rightarrow> Some (Resolve (Success v), lg2)
         | Some (Reject x, lg2) \<Rightarrow> Some (Resolve (Error x), lg2))"
    using v find_read_tool [of unreachable] by blast
  from handleRequest_envelope [of 0 "turtle_pod False flat_doc" "read_request ''http://pod/c/''" "[]"]
  have 2: "handleRequest 0 (turtle_pod False flat_doc) (read_request ''http://pod/c/'') [] =
        (case execute (?tool (turtle_pod False flat_doc)) 0 ?params [] of
           None \<Rightarrow> None
         | Some (Resolve v, lg2) \<Rightarrow> Some (Resolve (Success v), lg2)
         | Some (Reject x, lg2) \<Rightarrow> Some (Resolve (Error x), lg2))"
    using v find_read_tool [of "turtle_pod False flat_doc"] by blast
  from handleRequest_envelope [of 0 cycle_pod "search_request ''http://pod/a/'' ''x'' True" "[]"] c
  have 3: "getProp (search_request ''http://pod/a/'' ''x'' True) ''action'' = Resolve (JStr ''search'') \<and>
   (\<exists>parameters r. getProp (search_request ''http://pod/a/'' ''x'' True) ''parameters'' = Resolve parameters \<and>
      getProp parameters ''recursive'' = Resolve r \<and> truthy r)"
    by blast
  from x2 obtain r where x2': "execute (?tool (turtle_pod False flat_doc)) 0 ?params [] =
              Some (Resolve (ReadResult r),
                    [get_request (turtle_pod False flat_doc) (JStr ''http://pod/c/''),
                     get_request (turtle_pod False flat_doc) (JStr ''http://pod/c/'')])"
    by blast
  from 1 2 3 c x1 x2' show ?thesis
    by (simp only: option.case prod.case outcome.case) blast
qed

section \<open>Which failures reach the caller\<close>


































end
